theory Spec2Isabelle
  imports Complex_Main "HOL-Library.Product_Lexorder" "HOL-Library.AList" "HOL-Library.Multiset"
begin

section \<open>Floating point numbers\<close>

text \<open>
  The module \<^verbatim>\<open>metrics/top_k_distance.py\<close> computes with two binary floating point
  formats: a Python \<^verbatim>\<open>float\<close> is an IEEE double (a significand of 53 bits), and the
  tensors hold torch's default type \<^verbatim>\<open>float32\<close> (a significand of 24 bits). Every
  operation returns the exact result rounded to the nearest number of the format, a tie
  going to the number with the even significand.

  \<open>rne y\<close> is the integer nearest to \<open>y\<close>, ties to even; \<open>expo x\<close> is the binary exponent
  of \<open>x\<close>, the \<open>e\<close> with \<open>2 ^ e \<le> \<bar>x\<bar> < 2 ^ (e + 1)\<close>; \<open>round_to p x\<close> is \<open>x\<close> rounded to
  a significand of \<open>p\<close> bits. The exponent is not bounded: overflow to an infinity and the
  coarser spacing of the subnormal numbers are not modelled, so the model is the format on
  magnitudes between \<open>2 ^ - 126\<close> and \<open>2 ^ 128\<close> for \<^verbatim>\<open>float32\<close> and between
  \<open>2 ^ - 1022\<close> and \<open>2 ^ 1024\<close> for a double.
\<close>

definition rne :: "real \<Rightarrow> int" where
  "rne y = (let f = \<lfloor>y\<rfloor>; d = y - of_int f
            in if d < 1 / 2 then f else if 1 / 2 < d then f + 1 else if even f then f else f + 1)"

definition expo :: "real \<Rightarrow> int" where
  "expo x = \<lfloor>log 2 \<bar>x\<bar>\<rfloor>"

definition round_to :: "nat \<Rightarrow> real \<Rightarrow> real" where
  "round_to p x =
     (if x = 0 then 0
      else of_int (rne (x / 2 powi (expo x - int p + 1))) * 2 powi (expo x - int p + 1))"

definition f32 :: "real \<Rightarrow> real" where
  "f32 = round_to 24"

definition f64 :: "real \<Rightarrow> real" where
  "f64 = round_to 53"

section \<open>Tensor entries\<close>

text \<open>
  An entry of a tensor is a \<^verbatim>\<open>float32\<close>: a real number of the format, or one of the three
  special values of IEEE arithmetic. The arithmetic on finite entries rounds its exact
  result with \<^const>\<open>f32\<close>; negation and the absolute value are exact. The special values
  come from a division by zero and from the logarithm of a number that is not positive,
  and they propagate as IEEE arithmetic has it. Signed zeros are not modelled. The square
  root is correctly rounded in IEEE arithmetic; the cube root, the logarithm and the
  exponential of a math library may differ from the correctly rounded value in the last
  bit, and are modelled as correctly rounded.
\<close>

datatype fl = Fin real | PInf | NInf | NaN

fun fneg :: "fl \<Rightarrow> fl" where
  "fneg (Fin x) = Fin (- x)"
| "fneg PInf = NInf"
| "fneg NInf = PInf"
| "fneg NaN = NaN"

fun fadd :: "fl \<Rightarrow> fl \<Rightarrow> fl" where
  "fadd NaN _ = NaN"
| "fadd _ NaN = NaN"
| "fadd (Fin x) (Fin y) = Fin (f32 (x + y))"
| "fadd PInf NInf = NaN"
| "fadd NInf PInf = NaN"
| "fadd PInf _ = PInf"
| "fadd _ PInf = PInf"
| "fadd NInf _ = NInf"
| "fadd _ NInf = NInf"

definition fsub :: "fl \<Rightarrow> fl \<Rightarrow> fl" where
  "fsub a b = fadd a (fneg b)"

text \<open>The sign of an entry: \<open>-1\<close>, \<open>0\<close> or \<open>1\<close>; \<open>NaN\<close> has none.\<close>

fun fsign :: "fl \<Rightarrow> real" where
  "fsign (Fin x) = sgn x"
| "fsign PInf = 1"
| "fsign NInf = - 1"
| "fsign NaN = 0"

definition inf_of_sign :: "real \<Rightarrow> fl" where
  "inf_of_sign s = (if s = 0 then NaN else if 0 < s then PInf else NInf)"

fun fmul :: "fl \<Rightarrow> fl \<Rightarrow> fl" where
  "fmul NaN _ = NaN"
| "fmul _ NaN = NaN"
| "fmul (Fin x) (Fin y) = Fin (f32 (x * y))"
| "fmul a b = inf_of_sign (fsign a * fsign b)"

text \<open>
  Division. A finite number divided by zero is an infinity of its sign, and \<open>0 / 0\<close> is
  \<open>NaN\<close>. Every divisor of the module is a norm or a count, so the zero divisor is the
  positive zero.
\<close>

fun fdiv :: "fl \<Rightarrow> fl \<Rightarrow> fl" where
  "fdiv NaN _ = NaN"
| "fdiv _ NaN = NaN"
| "fdiv (Fin x) (Fin y) = (if y = 0 then inf_of_sign (sgn x) else Fin (f32 (x / y)))"
| "fdiv (Fin x) _ = Fin 0"
| "fdiv a (Fin y) = inf_of_sign (fsign a * (if y = 0 then 1 else sgn y))"
| "fdiv _ _ = NaN"

fun fabs :: "fl \<Rightarrow> fl" where
  "fabs (Fin x) = Fin \<bar>x\<bar>"
| "fabs NaN = NaN"
| "fabs _ = PInf"

fun fsqrt :: "fl \<Rightarrow> fl" where
  "fsqrt (Fin x) = (if x < 0 then NaN else Fin (f32 (sqrt x)))"
| "fsqrt PInf = PInf"
| "fsqrt _ = NaN"

text \<open>The cube root of a sum of cubed absolute values, for the norm of order 3.\<close>

fun fcbrt :: "fl \<Rightarrow> fl" where
  "fcbrt (Fin x) = (if x < 0 then NaN else Fin (f32 (root 3 x)))"
| "fcbrt PInf = PInf"
| "fcbrt _ = NaN"

text \<open>
  \<^verbatim>\<open>torch.log\<close>: minus infinity at zero and \<open>NaN\<close> below zero. (HOL's \<^const>\<open>ln\<close> is
  total and is used on positive arguments only.)
\<close>

fun flog :: "fl \<Rightarrow> fl" where
  "flog (Fin x) = (if x < 0 then NaN else if x = 0 then NInf else Fin (f32 (ln x)))"
| "flog PInf = PInf"
| "flog _ = NaN"

fun fexp :: "fl \<Rightarrow> fl" where
  "fexp (Fin x) = Fin (f32 (exp x))"
| "fexp PInf = PInf"
| "fexp NInf = Fin 0"
| "fexp NaN = NaN"

text \<open>
  The order \<^verbatim>\<open>torch.sort\<close> uses: \<open>NaN\<close> counts as larger than every number. The key
  below is the position of an entry in the descending order (smaller key, earlier place).
\<close>

fun desc_key :: "fl \<Rightarrow> nat \<times> real" where
  "desc_key NaN = (0, 0)"
| "desc_key PInf = (1, 0)"
| "desc_key (Fin x) = (2, - x)"
| "desc_key NInf = (3, 0)"

text \<open>The maximum of two entries as \<^verbatim>\<open>torch.max\<close> takes it: \<open>NaN\<close> propagates.\<close>

definition fmax :: "fl \<Rightarrow> fl \<Rightarrow> fl" where
  "fmax a b = (if a = NaN \<or> b = NaN then NaN else if desc_key a \<le> desc_key b then a else b)"

text \<open>
  \<^verbatim>\<open>torch.sum\<close> of a slice. The partial sums are rounded; they are taken from the first
  entry to the last, where torch leaves the order of the additions open.
\<close>

definition torch_sum :: "fl list \<Rightarrow> fl" where
  "torch_sum xs = fold fadd xs (Fin 0)"

text \<open>
  \<^verbatim>\<open>torch.mean\<close> of a slice: the sum divided by the count, the count as a \<^verbatim>\<open>float32\<close>.
  The mean of an empty slice is \<open>0 / 0\<close>.
\<close>

definition torch_mean :: "fl list \<Rightarrow> fl" where
  "torch_mean xs = fdiv (torch_sum xs) (Fin (f32 (real (length xs))))"

section \<open>Errors\<close>

datatype error = ValueError string | IndexError | RuntimeError

section \<open>The rank extractor\<close>

text \<open>
  A matrix is the list of its rows. \<^verbatim>\<open>matrix.shape[0]\<close> is the number of rows; the
  number of columns is read from the first row (tensors are rectangular).
\<close>

type_synonym matrix = "fl list list"

definition is_matrix :: "nat \<Rightarrow> nat \<Rightarrow> matrix \<Rightarrow> bool" where
  "is_matrix n c m \<longleftrightarrow> length m = n \<and> list_all (\<lambda>r. length r = c) m"

definition ncols :: "matrix \<Rightarrow> nat" where
  "ncols m = (case m of [] \<Rightarrow> 0 | r # _ \<Rightarrow> length r)"

definition column :: "nat \<Rightarrow> matrix \<Rightarrow> fl list" where
  "column j m = map (\<lambda>r. r ! j) m"

text \<open>
  \<^verbatim>\<open>torch.sort(matrix, dim=0, descending=True)\<close> returns, for every column, the row
  indices in the order of descending values. The call does not ask for a stable sort, so
  torch may return rows that hold equal values in any order; the model lists them in row
  order, which is one of the orders torch may return. On a column whose values are
  pairwise different there is one descending order only.
\<close>

definition argsort_desc :: "fl list \<Rightarrow> nat list" where
  "argsort_desc xs = map snd (sort_key (\<lambda>p. desc_key (fst p)) (zip xs [0..<length xs]))"

definition sort_indices :: "matrix \<Rightarrow> nat \<Rightarrow> nat list" where
  "sort_indices m j = argsort_desc (column j m)"

text \<open>\<^verbatim>\<open>(v == i).nonzero()\<close>: the positions at which \<open>v\<close> holds \<open>i\<close>, ascending.\<close>

definition nonzero_eq :: "nat list \<Rightarrow> nat \<Rightarrow> nat list" where
  "nonzero_eq v i = filter (\<lambda>p. v ! p = i) [0..<length v]"

text \<open>
  One round of the loop of \<^verbatim>\<open>_compute_diag_ranks\<close>:
  \<^verbatim>\<open>ranks[i] = (indices[:, i] == i).nonzero()[0].item() + 1\<close>.
  Column \<open>i\<close> must exist and the list of positions must not be empty.
\<close>

definition rank_step :: "matrix \<Rightarrow> nat \<Rightarrow> error + nat list \<Rightarrow> error + nat list" where
  "rank_step m i acc =
     (case acc of
        Inl e \<Rightarrow> Inl e
      | Inr ranks \<Rightarrow>
          if ncols m \<le> i then Inl IndexError
          else (case nonzero_eq (sort_indices m i) i of
                  [] \<Rightarrow> Inl IndexError
                | p # _ \<Rightarrow> Inr (ranks[i := p + 1])))"

definition compute_diag_ranks :: "matrix \<Rightarrow> error + nat list" where
  "compute_diag_ranks m =
     fold (rank_step m) [0..<length m] (Inr (replicate (length m) 0))"

section \<open>The scorer\<close>

text \<open>
  An element of \<^verbatim>\<open>k_range\<close> is a Python number, an integer or a float (a double, given
  by its value). The key of its score is \<^verbatim>\<open>'top' + str(k)\<close>; \<^verbatim>\<open>str\<close> is injective on
  these numbers (the text of a float always has a point, an exponent or letters), so the
  key is modelled by the number.
\<close>

datatype pynum = PyInt int | PyFloat real

fun py_val :: "pynum \<Rightarrow> real" where
  "py_val (PyInt i) = real_of_int i"
| "py_val (PyFloat x) = x"

datatype key = Top pynum | Mean_ranks | Exact_matching

text \<open>A Python dict: keys in insertion order, a second store to a key replaces its value.\<close>

type_synonym score_dict = "(key \<times> fl) list"

text \<open>
  \<^verbatim>\<open>number_values = matrix.shape[0] * (k/100)\<close> is Python arithmetic on doubles: the
  quotient \<^verbatim>\<open>k/100\<close> is rounded to a double, and so is its product with the number of
  rows. (The number of rows is below \<open>2 ^ 53\<close> and is a double as it is.)
\<close>

definition number_values :: "nat \<Rightarrow> pynum \<Rightarrow> real" where
  "number_values n k = f64 (real n * f64 (py_val k / 100))"

text \<open>
  \<^verbatim>\<open>(ranks <= number_values).sum()\<close>: the ranks are a tensor of 64 bit integers and the
  threshold is a Python float, so torch compares them as \<^verbatim>\<open>float32\<close>: both sides are
  rounded to that format. The sum of the truth values is an integer.
  \<^verbatim>\<open>(ranks == 0).sum()\<close> compares integers.
\<close>

definition count_le :: "nat list \<Rightarrow> real \<Rightarrow> nat" where
  "count_le ranks t = length (filter (\<lambda>r. f32 (real r) \<le> f32 t) ranks)"

definition count_eq :: "nat list \<Rightarrow> nat \<Rightarrow> nat" where
  "count_eq ranks v = length (filter (\<lambda>r. r = v) ranks)"

text \<open>
  \<^verbatim>\<open>(r / matrix.shape[0]) * 100\<close> on a tensor \<open>r\<close> of no dimensions: the quotient and the
  product are \<^verbatim>\<open>float32\<close> operations, each rounded, and the number of rows enters as a
  \<^verbatim>\<open>float32\<close>. Where \<open>r\<close> is a count (an integer tensor), the true division takes it as a
  \<^verbatim>\<open>float32\<close> as well: \<open>int_tensor c\<close>.
\<close>

definition int_tensor :: "nat \<Rightarrow> fl" where
  "int_tensor c = Fin (f32 (real c))"

definition percent :: "fl \<Rightarrow> nat \<Rightarrow> fl" where
  "percent r n = fmul (fdiv r (Fin (f32 (real n)))) (Fin 100)"

definition topk_step :: "nat \<Rightarrow> nat list \<Rightarrow> pynum \<Rightarrow> score_dict \<Rightarrow> score_dict" where
  "topk_step n ranks k d =
     AList.update (Top k) (percent (int_tensor (count_le ranks (number_values n k))) n) d"

text \<open>
  Lines 117 to 130 of \<^verbatim>\<open>__call__\<close>, with \<open>n = matrix.shape[0]\<close>: the mean of
  \<^verbatim>\<open>ranks.float()\<close>, the loop over \<^verbatim>\<open>k_range\<close>, then the entries \<^verbatim>\<open>mean_ranks\<close> and
  \<^verbatim>\<open>exact_matching\<close>.
\<close>

definition scores :: "nat \<Rightarrow> nat list \<Rightarrow> pynum list \<Rightarrow> score_dict" where
  "scores n ranks k_range =
     (let mean_ranks = torch_mean (map int_tensor ranks);
          d1 = fold (topk_step n ranks) k_range [];
          d2 = AList.update Mean_ranks (percent mean_ranks n) d1;
          r_exact = count_eq ranks 0
      in AList.update Exact_matching (percent (int_tensor r_exact) n) d2)"

section \<open>Tensors and aggregation\<close>

text \<open>
  A tensor is a nest of lists, outermost dimension first; \<^verbatim>\<open>__call__\<close> reads the
  entries of tensors of two or three dimensions only. A tensor of four or more dimensions
  is represented by the number of its dimensions beyond four. Tensors are rectangular, and
  the dimensions of a tensor are taken to be non-zero where a nest of lists cannot tell
  the inner dimensions of an empty one.
\<close>

datatype tensor =
    Rank0 fl
  | Rank1 "fl list"
  | Rank2 "fl list list"
  | Rank3 "fl list list list"
  | Rank_ge4 nat

fun ndim :: "tensor \<Rightarrow> nat" where
  "ndim (Rank0 _) = 0"
| "ndim (Rank1 _) = 1"
| "ndim (Rank2 _) = 2"
| "ndim (Rank3 _) = 3"
| "ndim (Rank_ge4 d) = d + 4"

text \<open>
  An item of a tensor of shape \<open>(N, S, F)\<close> is a list of \<open>S\<close> samples of \<open>F\<close> features.
  A reduction over \<^verbatim>\<open>dim=1\<close> works on the \<open>F\<close> slices of \<open>S\<close> values each.
\<close>

definition slices :: "fl list list \<Rightarrow> fl list list" where
  "slices g = map (\<lambda>f. map (\<lambda>s. s ! f) g) [0..<ncols g]"

definition reduce_dim1 :: "(fl list \<Rightarrow> fl) \<Rightarrow> fl list list list \<Rightarrow> fl list list" where
  "reduce_dim1 r t = map (\<lambda>g. map r (slices g)) t"

text \<open>
  \<^verbatim>\<open>torch.median(emb, dim=1)[0]\<close>: the lower of the two middle values when the count
  is even, and \<open>NaN\<close> as soon as the slice holds one.
\<close>

fun asc_key :: "fl \<Rightarrow> nat \<times> real" where
  "asc_key NInf = (0, 0)"
| "asc_key (Fin x) = (1, x)"
| "asc_key PInf = (2, 0)"
| "asc_key NaN = (3, 0)"

definition torch_median :: "fl list \<Rightarrow> fl" where
  "torch_median xs =
     (if NaN \<in> set xs then NaN else sort_key asc_key xs ! ((length xs - 1) div 2))"

fun mean :: "tensor \<Rightarrow> tensor" where
  "mean (Rank3 emb) = Rank2 (reduce_dim1 torch_mean emb)"
| "mean emb = emb"

fun median :: "tensor \<Rightarrow> tensor" where
  "median (Rank3 emb) = Rank2 (reduce_dim1 torch_median emb)"
| "median emb = emb"

text \<open>
  \<^verbatim>\<open>torch.log(emb + 1e-8)\<close>: the Python float \<^verbatim>\<open>1e-8\<close> enters the sum as a
  \<^verbatim>\<open>float32\<close>.
\<close>

definition eps32 :: real where
  "eps32 = f32 (f64 (1 / 10 ^ 8))"

definition log_embeddings :: "fl list \<Rightarrow> fl list" where
  "log_embeddings xs = map (\<lambda>x. flog (fadd x (Fin eps32))) xs"

fun robust_mean :: "tensor \<Rightarrow> tensor" where
  "robust_mean (Rank3 emb) =
     Rank2 (reduce_dim1 (\<lambda>xs. fexp (torch_mean (log_embeddings xs))) emb)"
| "robust_mean emb = emb"

section \<open>The distance functions\<close>

text \<open>
  Every distance function combines row \<open>a\<close> of \<^verbatim>\<open>arr1[:, None, :]\<close> with row \<open>b\<close> of
  \<^verbatim>\<open>arr2[None, :, :]\<close>. Broadcasting makes rows of different lengths agree when one of
  them has length one and fails otherwise.
\<close>

definition broadcast_rows :: "fl list \<Rightarrow> fl list \<Rightarrow> error + (fl list \<times> fl list)" where
  "broadcast_rows a b =
     (if length a = length b then Inr (a, b)
      else if length a = 1 then Inr (replicate (length b) (hd a), b)
      else if length b = 1 then Inr (a, replicate (length a) (hd b))
      else Inl RuntimeError)"

definition broadcast2 :: "(fl \<Rightarrow> fl \<Rightarrow> fl) \<Rightarrow> fl list \<Rightarrow> fl list \<Rightarrow> error + fl list" where
  "broadcast2 f a b = map_sum id (\<lambda>(a', b'). map2 f a' b') (broadcast_rows a b)"

fun collect :: "(error + 'a) list \<Rightarrow> error + 'a list" where
  "collect [] = Inr []"
| "collect (x # xs) =
     (case x of
        Inl e \<Rightarrow> Inl e
      | Inr v \<Rightarrow> (case collect xs of Inl e \<Rightarrow> Inl e | Inr vs \<Rightarrow> Inr (v # vs)))"

definition pairwise_rows ::
  "(fl list \<Rightarrow> fl list \<Rightarrow> error + fl) \<Rightarrow> fl list list \<Rightarrow> fl list list \<Rightarrow> error + matrix" where
  "pairwise_rows d arr1 arr2 = collect (map (\<lambda>a. collect (map (\<lambda>b. d a b) arr2)) arr1)"

text \<open>\<^verbatim>\<open>torch.norm(x, p=2, dim=-1)\<close> and \<^verbatim>\<open>torch.norm(x, p=3, dim=-1)\<close>\<close>

definition norm_p2 :: "fl list \<Rightarrow> fl" where
  "norm_p2 xs = fsqrt (torch_sum (map (\<lambda>x. fmul x x) xs))"

definition norm_p3 :: "fl list \<Rightarrow> fl" where
  "norm_p3 xs = fcbrt (torch_sum (map (\<lambda>x. fmul (fabs x) (fmul (fabs x) (fabs x))) xs))"

text \<open>\<^verbatim>\<open>torch.max(x, dim=-1)[0]\<close>; an empty dimension has no maximum.\<close>

definition torch_max :: "fl list \<Rightarrow> error + fl" where
  "torch_max xs = (case xs of [] \<Rightarrow> Inl IndexError | x # ys \<Rightarrow> Inr (fold fmax ys x))"

definition euclidean :: "fl list list \<Rightarrow> fl list list \<Rightarrow> error + matrix" where
  "euclidean arr1 arr2 =
     pairwise_rows (\<lambda>a b. map_sum id norm_p2 (broadcast2 fsub a b)) arr1 arr2"

text \<open>
  \<^verbatim>\<open>F.cosine_similarity(x1, x2, dim=-1)\<close> belongs to torch; it is modelled as its
  documentation defines it, with the default \<^verbatim>\<open>eps = 1e-8\<close>: the dot product divided by
  the product of the two norms, each norm raised to \<^verbatim>\<open>eps\<close> when it is smaller.
\<close>

definition cosine_similarity :: "fl list \<Rightarrow> fl list \<Rightarrow> fl" where
  "cosine_similarity x1 x2 =
     fdiv (torch_sum (map2 fmul x1 x2))
          (fmul (fmax (norm_p2 x1) (Fin eps32)) (fmax (norm_p2 x2) (Fin eps32)))"

definition cosine :: "fl list list \<Rightarrow> fl list list \<Rightarrow> error + matrix" where
  "cosine arr1 arr2 =
     pairwise_rows
       (\<lambda>a b. map_sum id (\<lambda>(a', b'). fsub (Fin 1) (cosine_similarity a' b')) (broadcast_rows a b))
       arr1 arr2"

text \<open>\<^verbatim>\<open>arr - torch.mean(arr, dim=-1, keepdim=True)\<close>\<close>

definition centered :: "fl list list \<Rightarrow> fl list list" where
  "centered arr = map (\<lambda>r. map (\<lambda>x. fsub x (torch_mean r)) r) arr"

text \<open>
  A matrix divided by a vector: the vector is laid along the last dimension, so entry
  \<open>(i, j)\<close> is divided by entry \<open>j\<close> of the vector, under the broadcasting rule.
\<close>

definition div_rows :: "matrix \<Rightarrow> fl list \<Rightarrow> error + matrix" where
  "div_rows m v = collect (map (\<lambda>r. broadcast2 fdiv r v) m)"

definition correlation :: "fl list list \<Rightarrow> fl list list \<Rightarrow> error + matrix" where
  "correlation arr1 arr2 =
     (let centered1 = centered arr1; centered2 = centered arr2
      in case pairwise_rows (\<lambda>a b. map_sum id torch_sum (broadcast2 fmul a b))
                centered1 centered2 of
           Inl e \<Rightarrow> Inl e
         | Inr s \<Rightarrow>
             (case div_rows s (map norm_p2 centered1) of
                Inl e \<Rightarrow> Inl e
              | Inr q1 \<Rightarrow>
                  (case div_rows q1 (map norm_p2 centered2) of
                     Inl e \<Rightarrow> Inl e
                   | Inr q2 \<Rightarrow> Inr (map (map (fsub (Fin 1))) q2))))"

definition chebyshev :: "fl list list \<Rightarrow> fl list list \<Rightarrow> error + matrix" where
  "chebyshev arr1 arr2 =
     pairwise_rows
       (\<lambda>a b. case broadcast2 fsub a b of
                 Inl e \<Rightarrow> Inl e
               | Inr d \<Rightarrow> torch_max (map fabs d))
       arr1 arr2"

definition minkowski :: "fl list list \<Rightarrow> fl list list \<Rightarrow> error + matrix" where
  "minkowski arr1 arr2 =
     pairwise_rows (\<lambda>a b. map_sum id norm_p3 (broadcast2 fsub a b)) arr1 arr2"

definition cityblock :: "fl list list \<Rightarrow> fl list list \<Rightarrow> error + matrix" where
  "cityblock arr1 arr2 =
     pairwise_rows (\<lambda>a b. map_sum id (\<lambda>d. torch_sum (map fabs d)) (broadcast2 fsub a b))
       arr1 arr2"

section \<open>The pipeline\<close>

text \<open>
  The attributes \<^verbatim>\<open>self.method\<close> and \<^verbatim>\<open>self.aggregate\<close> that \<^verbatim>\<open>__init__\<close> stores. The
  two dictionaries \<^verbatim>\<open>_methods\<close> and \<^verbatim>\<open>_aggregs\<close> are the same for every instance and are
  constants of the model.
\<close>

record topk_distance =
  method_name :: string
  aggregate :: string

definition methods :: "(string \<times> (fl list list \<Rightarrow> fl list list \<Rightarrow> error + matrix)) list" where
  "methods =
     [(''euclidean'', euclidean), (''cosine'', cosine), (''correlation'', correlation),
      (''chebyshev'', chebyshev), (''minkowski'', minkowski), (''cityblock'', cityblock)]"

definition aggregs :: "(string \<times> (tensor \<Rightarrow> tensor)) list" where
  "aggregs = [(''mean'', mean), (''median'', median), (''robust_mean'', robust_mean)]"

text \<open>Python's text of a list of strings and of a natural number.\<close>

fun str_list_tail :: "string list \<Rightarrow> string" where
  "str_list_tail [] = '']''"
| "str_list_tail (s # ss) = '', '' @ [CHR 0x27] @ s @ [CHR 0x27] @ str_list_tail ss"

fun str_list :: "string list \<Rightarrow> string" where
  "str_list [] = ''[]''"
| "str_list (s # ss) = ''['' @ [CHR 0x27] @ s @ [CHR 0x27] @ str_list_tail ss"

fun str_nat :: "nat \<Rightarrow> string" where
  "str_nat n =
     (if n < 10 then [''0123456789'' ! n]
      else str_nat (n div 10) @ [''0123456789'' ! (n mod 10)])"

declare str_nat.simps [simp del]

definition call ::
  "topk_distance \<Rightarrow> tensor \<Rightarrow> tensor \<Rightarrow> pynum list \<Rightarrow> error + score_dict" where
  "call self arr1 arr2 k_range =
     (case map_of methods (method_name self) of
        None \<Rightarrow>
          Inl (ValueError (method_name self
                 @ '' not in list of defined methods. Please choose from ''
                 @ str_list (map fst methods)))
      | Some distance \<Rightarrow>
     (case map_of aggregs (aggregate self) of
        None \<Rightarrow>
          Inl (ValueError (aggregate self
                 @ '' not in list of defined aggregations. Please choose from ''
                 @ str_list (map fst aggregs)))
      | Some agg \<Rightarrow>
          if ndim arr1 \<notin> {2, 3} then
            Inl (ValueError (''arr1 should be a 2D or 3D tensor, but got ''
                   @ str_nat (ndim arr1) @ ''D tensor''))
          else if ndim arr2 \<notin> {2, 3} then
            Inl (ValueError (''arr2 should be a 2D or 3D tensor, but got ''
                   @ str_nat (ndim arr2) @ ''D tensor''))
          else
            (let arr1' = (if ndim arr1 = 3 then agg arr1 else arr1);
                 arr2' = (if ndim arr2 = 3 then agg arr2 else arr2)
             in case (arr1', arr2') of
                  (Rank2 a, Rank2 b) \<Rightarrow>
                    (case distance a b of
                       Inl e \<Rightarrow> Inl e
                     | Inr matrix \<Rightarrow>
                         (case compute_diag_ranks matrix of
                            Inl e \<Rightarrow> Inl e
                          | Inr ranks \<Rightarrow> Inr (scores (length matrix) ranks k_range)))
                | _ \<Rightarrow> Inl RuntimeError)))"

section \<open>Auxiliary definitions for the properties\<close>

text \<open>
  The rank that a descending stable sort gives the diagonal entry of column \<open>i\<close>: one,
  plus the number of rows holding a value that sorts before the diagonal value, plus the
  number of earlier rows holding the same value.
\<close>

definition rank_of :: "matrix \<Rightarrow> nat \<Rightarrow> nat" where
  "rank_of m i =
     1 + length (filter (\<lambda>j. desc_key (m ! j ! i) < desc_key (m ! i ! i)) [0..<length m])
       + length (filter (\<lambda>j. m ! j ! i = m ! i ! i) [0..<i])"

text \<open>
  The rank extractor as section 4.3 of the specification words it, for comparison with
  \<^const>\<open>compute_diag_ranks\<close>: every column is sorted ascending (smallest first, stable),
  and the rank is one plus the position of the row index \<open>i\<close>.
\<close>

definition argsort_asc :: "fl list \<Rightarrow> nat list" where
  "argsort_asc xs = map snd (sort_key (\<lambda>p. asc_key (fst p)) (zip xs [0..<length xs]))"

definition spec_diag_ranks :: "matrix \<Rightarrow> nat list" where
  "spec_diag_ranks m =
     map (\<lambda>i. hd (nonzero_eq (argsort_asc (column i m)) i) + 1) [0..<length m]"

text \<open>
  \<open>larger a b\<close>: entry \<open>a\<close> comes strictly before entry \<open>b\<close> in a descending sort, that is
  \<open>a\<close> is the larger one, with \<open>NaN\<close> above every number.
\<close>

definition larger :: "fl \<Rightarrow> fl \<Rightarrow> bool" where
  "larger a b \<longleftrightarrow> desc_key a < desc_key b"

text \<open>
  The Euclidean distance of two rows of numbers as \<^const>\<open>euclidean\<close> computes it on rows
  of finite entries: every difference, square, partial sum and the square root is rounded.
\<close>

definition rounded_sum :: "real list \<Rightarrow> real \<Rightarrow> real" where
  "rounded_sum zs a = fold (\<lambda>z acc. f32 (z + acc)) zs a"

definition l2_dist :: "real list \<Rightarrow> real list \<Rightarrow> real" where
  "l2_dist x y =
     f32 (sqrt (rounded_sum (map (\<lambda>(u, v). f32 (f32 (u - v) * f32 (u - v))) (zip x y)) 0))"

text \<open>
  The example of the docstring of \<^verbatim>\<open>__call__\<close> (lines 88 and 89), which the
  specification takes up as its concrete scenario:
  \<^verbatim>\<open>torch.tensor([[0.7, 0.2, 0.1], [0.3, 0.5, 0.2], [0.1, 0.3, 0.6]])\<close>. A decimal literal
  is the nearest double, and the tensor holds the \<^verbatim>\<open>float32\<close> nearest to that double.
\<close>

definition literal32 :: "real \<Rightarrow> real" where
  "literal32 q = f32 (f64 q)"

definition example_rows :: "real list list" where
  "example_rows =
     [[literal32 (7 / 10), literal32 (2 / 10), literal32 (1 / 10)],
      [literal32 (3 / 10), literal32 (5 / 10), literal32 (2 / 10)],
      [literal32 (1 / 10), literal32 (3 / 10), literal32 (6 / 10)]]"

definition example_arr :: "fl list list" where
  "example_arr = map (map Fin) example_rows"

section \<open>Properties of rounding\<close>

lemma rne_of_int [simp]: "rne (of_int n) = n"
  by (simp add: rne_def)

lemma rne_range: "rne y = \<lfloor>y\<rfloor> \<or> rne y = \<lfloor>y\<rfloor> + 1"
  by (simp add: rne_def Let_def)

lemma rne_mono:
  assumes "a \<le> b"
  shows "rne a \<le> rne b"
proof (cases "\<lfloor>a\<rfloor> = \<lfloor>b\<rfloor>")
  case False
  with assms have "\<lfloor>a\<rfloor> < \<lfloor>b\<rfloor>"
    using floor_mono [OF assms] by simp
  then show ?thesis
    using rne_range [of a] rne_range [of b] by auto
next
  case True
  then have "a - of_int \<lfloor>a\<rfloor> \<le> b - of_int \<lfloor>b\<rfloor>"
    using assms by simp
  then show ?thesis
    using True by (auto simp: rne_def Let_def)
qed

lemma expo_bounds:
  assumes "x \<noteq> 0"
  shows "2 powi expo x \<le> \<bar>x\<bar>" and "\<bar>x\<bar> < 2 powi (expo x + 1)"
proof -
  from assms have pos: "0 < \<bar>x\<bar>" by simp
  have "\<lfloor>log 2 \<bar>x\<bar>\<rfloor> = expo x" by (simp add: expo_def)
  then have "2 powr of_int (expo x) \<le> \<bar>x\<bar> \<and> \<bar>x\<bar> < 2 powr (of_int (expo x) + 1)"
    using floor_log_eq_powr_iff [OF pos, of 2 "expo x"] by simp
  moreover have "(2 :: real) powr of_int (expo x) = 2 powi expo x"
    by (rule powr_real_of_int') simp_all
  moreover have "(2 :: real) powr (of_int (expo x) + 1) = 2 powi (expo x + 1)"
    using powr_real_of_int' [of 2 "expo x + 1"] by simp
  ultimately show "2 powi expo x \<le> \<bar>x\<bar>" and "\<bar>x\<bar> < 2 powi (expo x + 1)"
    by simp_all
qed

lemma expo_eqI:
  assumes "2 powi e \<le> \<bar>x\<bar>" and "\<bar>x\<bar> < 2 powi (e + 1)"
  shows "expo x = e"
proof -
  have pos: "0 < \<bar>x\<bar>"
    using assms(1) by (smt (verit) zero_less_power_int)
  have "(2 :: real) powr of_int e = 2 powi e"
    by (rule powr_real_of_int') simp_all
  moreover have "(2 :: real) powr (of_int e + 1) = 2 powi (e + 1)"
    using powr_real_of_int' [of 2 "e + 1"] by simp
  ultimately have "2 powr of_int e \<le> \<bar>x\<bar> \<and> \<bar>x\<bar> < 2 powr (of_int e + 1)"
    using assms by simp
  then show ?thesis
    unfolding expo_def using floor_log_eq_powr_iff [OF pos, of 2 e] by simp
qed

lemma expo_mono:
  assumes "x \<noteq> 0" and "\<bar>x\<bar> \<le> \<bar>y\<bar>"
  shows "expo x \<le> expo y"
  unfolding expo_def using assms by (intro floor_mono) simp


lemma rne_minus: "rne (- y) = - rne y"
proof (cases "y = of_int \<lfloor>y\<rfloor>")
  case True
  then obtain n where "y = of_int n" ..
  then have "rne (- y) = rne (of_int (- n))" by simp
  also have "\<dots> = - n" by (rule rne_of_int)
  finally show ?thesis using \<open>y = of_int n\<close> by simp
next
  case False
  define f where "f = \<lfloor>y\<rfloor>"
  define d where "d = y - of_int f"
  have le: "of_int f \<le> y" and up: "y < of_int f + 1"
    unfolding f_def by linarith+
  from le False have lt: "of_int f < y"
    unfolding f_def by (metis order_le_less)
  from up lt have "of_int (- f - 1) \<le> - y" and "- y < of_int (- f - 1) + 1"
    by simp_all
  then have fl: "\<lfloor>- y\<rfloor> = - f - 1"
    by (rule floor_unique)
  have dm: "- y - of_int (- f - 1) = 1 - d"
    by (simp add: d_def)
  have r1: "rne y = (if d < 1 / 2 then f else if 1 / 2 < d then f + 1
                     else if even f then f else f + 1)"
    by (simp only: rne_def Let_def f_def [symmetric] d_def [symmetric])
  have r2: "rne (- y) = (if 1 - d < 1 / 2 then - f - 1 else if 1 / 2 < 1 - d then - f - 1 + 1
                         else if even (- f - 1) then - f - 1 else - f - 1 + 1)"
    by (simp only: rne_def Let_def fl dm)
  consider "d < 1 / 2" | "1 / 2 < d" | "d = 1 / 2" by linarith
  then show ?thesis
  proof cases
    case 1
    then show ?thesis by (simp add: r1 r2)
  next
    case 2
    then show ?thesis by (simp add: r1 r2)
  next
    case 3
    then show ?thesis by (simp add: r1 r2)
  qed
qed

lemma expo_minus [simp]: "expo (- x) = expo x"
  by (simp add: expo_def)

lemma round_to_minus: "round_to p (- x) = - round_to p x"
  by (simp add: round_to_def rne_minus)

lemma round_to_zero [simp]: "round_to p 0 = 0"
  by (simp add: round_to_def)

lemma round_to_eval:
  assumes "2 powi e \<le> \<bar>x\<bar>" and "\<bar>x\<bar> < 2 powi (e + 1)"
  shows "round_to p x = of_int (rne (x / 2 powi (e - int p + 1))) * 2 powi (e - int p + 1)"
proof -
  have "expo x = e" using assms by (rule expo_eqI)
  moreover have "x \<noteq> 0"
    using assms(1) by (smt (verit) zero_less_power_int)
  ultimately show ?thesis by (simp add: round_to_def)
qed

lemma round_to_pos_bounds:
  assumes "0 < x" and "0 < p"
  shows "2 powi expo x \<le> round_to p x" and "round_to p x \<le> 2 powi (expo x + 1)"
proof -
  let ?e = "expo x"
  let ?s = "(2 :: real) powi (?e - int p + 1)"
  have s: "0 < ?s" by simp
  from assms(1) have x0: "x \<noteq> 0" and ax: "\<bar>x\<bar> = x" by simp_all
  have lo: "of_int (2 ^ (p - 1)) * ?s = 2 powi ?e"
  proof -
    have "of_int (2 ^ (p - 1)) * ?s = 2 powi int (p - 1) * ?s"
      by simp
    also have "\<dots> = 2 powi (int (p - 1) + (?e - int p + 1))"
      by (subst power_int_add) simp_all
    also have "int (p - 1) + (?e - int p + 1) = ?e"
      using assms(2) by simp
    finally show ?thesis .
  qed
  have hi: "of_int (2 ^ p) * ?s = 2 powi (?e + 1)"
  proof -
    have "of_int (2 ^ p) * ?s = 2 powi int p * ?s"
      by simp
    also have "\<dots> = 2 powi (int p + (?e - int p + 1))"
      by (subst power_int_add) simp_all
    also have "int p + (?e - int p + 1) = ?e + 1"
      by simp
    finally show ?thesis .
  qed
  from expo_bounds [OF x0] have b: "2 powi ?e \<le> x" "x < 2 powi (?e + 1)"
    by (simp_all add: ax)
  have "of_int (2 ^ (p - 1)) * ?s \<le> x"
    using b(1) by (simp only: lo)
  then have "of_int (2 ^ (p - 1)) \<le> x / ?s"
    by (simp only: pos_le_divide_eq [OF s])
  then have "rne (of_int (2 ^ (p - 1))) \<le> rne (x / ?s)" by (rule rne_mono)
  then have l: "2 ^ (p - 1) \<le> rne (x / ?s)" by (simp only: rne_of_int)
  have "x \<le> of_int (2 ^ p) * ?s"
    using b(2) by (simp only: hi less_imp_le)
  then have "x / ?s \<le> of_int (2 ^ p)"
    by (simp only: pos_divide_le_eq [OF s])
  then have "rne (x / ?s) \<le> rne (of_int (2 ^ p))" by (rule rne_mono)
  then have h: "rne (x / ?s) \<le> 2 ^ p" by (simp only: rne_of_int)
  have r: "round_to p x = of_int (rne (x / ?s)) * ?s"
    using x0 by (simp add: round_to_def)
  have "of_int (2 ^ (p - 1)) * ?s \<le> of_int (rne (x / ?s)) * ?s"
    using l s by (intro mult_right_mono) (simp_all add: of_int_le_iff [symmetric] del: of_int_le_iff)
  then show "2 powi expo x \<le> round_to p x"
    by (simp only: lo r)
  have "of_int (rne (x / ?s)) * ?s \<le> of_int (2 ^ p) * ?s"
    using h s by (intro mult_right_mono) (simp_all add: of_int_le_iff [symmetric] del: of_int_le_iff)
  then show "round_to p x \<le> 2 powi (expo x + 1)"
    by (simp only: hi r)
qed

lemma round_to_pos: "0 < x \<Longrightarrow> 0 < p \<Longrightarrow> 0 < round_to p x"
  using round_to_pos_bounds(1) [of x p] by (smt (verit) zero_less_power_int)

lemma round_to_mono_pos:
  assumes "0 < x" and "x \<le> y" and "0 < p"
  shows "round_to p x \<le> round_to p y"
proof -
  from assms have y: "0 < y" by simp
  have le: "expo x \<le> expo y"
    using assms by (intro expo_mono) simp_all
  show ?thesis
  proof (cases "expo x = expo y")
    case True
    let ?s = "(2 :: real) powi (expo x - int p + 1)"
    have "x / ?s \<le> y / ?s"
      using assms(2) by (simp add: divide_right_mono)
    then have "rne (x / ?s) \<le> rne (y / ?s)" by (rule rne_mono)
    then have "of_int (rne (x / ?s)) * ?s \<le> of_int (rne (y / ?s)) * ?s"
      by (intro mult_right_mono) simp_all
    then show ?thesis
      using assms(1) y True by (simp add: round_to_def)
  next
    case False
    with le have "expo x + 1 \<le> expo y" by simp
    then have "(2 :: real) powi (expo x + 1) \<le> 2 powi expo y"
      by (intro power_int_increasing) simp_all
    with round_to_pos_bounds(2) [OF assms(1,3)] round_to_pos_bounds(1) [OF y assms(3)]
    show ?thesis by simp
  qed
qed

lemma round_to_mono:
  assumes "0 < p" and "x \<le> y"
  shows "round_to p x \<le> round_to p y"
proof -
  consider "0 < x" | "y < 0" | "x \<le> 0" "0 \<le> y" using assms(2) by linarith
  then show ?thesis
  proof cases
    case 1
    then show ?thesis using assms by (intro round_to_mono_pos)
  next
    case 2
    then have "round_to p (- y) \<le> round_to p (- x)"
      using assms by (intro round_to_mono_pos) simp_all
    then show ?thesis by (simp add: round_to_minus)
  next
    case 3
    have "round_to p x \<le> 0"
    proof (cases "x = 0")
      case False
      with 3 have "0 < round_to p (- x)" using assms(1) by (intro round_to_pos) simp_all
      then show ?thesis by (simp add: round_to_minus)
    qed simp
    moreover have "0 \<le> round_to p y"
    proof (cases "y = 0")
      case False
      with 3 have "0 < round_to p y" using assms(1) by (intro round_to_pos) simp_all
      then show ?thesis by simp
    qed simp
    ultimately show ?thesis by simp
  qed
qed

lemma round_to_exact:
  assumes "\<bar>m\<bar> < 2 ^ p"
  shows "round_to p (of_int m * 2 powi k) = of_int m * 2 powi k"
proof (cases "m = 0")
  case True
  then show ?thesis by simp
next
  case False
  let ?x = "of_int m * (2 :: real) powi k"
  let ?e = "expo ?x"
  have x0: "?x \<noteq> 0" using False by simp
  have "\<bar>?x\<bar> = of_int \<bar>m\<bar> * 2 powi k"
    by (simp add: abs_mult)
  also have "\<dots> < of_int (2 ^ p) * 2 powi k"
  proof (rule mult_strict_right_mono)
    show "real_of_int \<bar>m\<bar> < real_of_int (2 ^ p)"
      using assms by (simp only: of_int_less_iff)
  qed simp
  also have "of_int (2 ^ p) * (2 :: real) powi k = 2 powi int p * 2 powi k"
    by simp
  also have "\<dots> = 2 powi (int p + k)"
    by (subst power_int_add) simp_all
  finally have "2 powi ?e < (2 :: real) powi (int p + k)"
    using expo_bounds(1) [OF x0] by simp
  then have "?e < int p + k"
    by (smt (verit) power_int_increasing)
  then have "0 \<le> k - (?e - int p + 1)" by simp
  then obtain j where j: "k - (?e - int p + 1) = int j"
    using zero_le_imp_eq_int by blast
  have "?x / 2 powi (?e - int p + 1) = of_int m * 2 powi (k - (?e - int p + 1))"
    by (simp add: power_int_diff)
  also have "\<dots> = of_int (m * 2 ^ j)"
    by (simp add: j)
  finally have "rne (?x / 2 powi (?e - int p + 1)) = m * 2 ^ j"
    by (simp only: rne_of_int)
  then have "round_to p ?x = of_int (m * 2 ^ j) * 2 powi (?e - int p + 1)"
    using x0 by (simp add: round_to_def)
  also have "\<dots> = of_int m * (2 powi int j * 2 powi (?e - int p + 1))"
    by simp
  also have "2 powi int j * (2 :: real) powi (?e - int p + 1) = 2 powi (int j + (?e - int p + 1))"
    by (simp add: power_int_add)
  also have "int j + (?e - int p + 1) = k"
    using j by simp
  finally show ?thesis .
qed

lemma round_to_of_int: "\<bar>m\<bar> < 2 ^ p \<Longrightarrow> round_to p (of_int m) = of_int m"
  using round_to_exact [of m p 0] by simp

lemma round_to_of_nat:
  assumes "n < 2 ^ p"
  shows "round_to p (of_nat n) = of_nat n"
proof -
  from assms have "\<bar>int n\<bar> < 2 ^ p" by simp
  from round_to_of_int [OF this] show ?thesis by simp
qed

lemma round_to_nonneg: "0 < p \<Longrightarrow> 0 \<le> x \<Longrightarrow> 0 \<le> round_to p x"
  using round_to_mono [of p 0 x] by simp

lemma round_to_neg: "0 < p \<Longrightarrow> x < 0 \<Longrightarrow> round_to p x < 0"
  using round_to_pos [of "- x" p] by (simp add: round_to_minus)

lemma round_to_eq_0_iff:
  assumes "0 < p"
  shows "round_to p x = 0 \<longleftrightarrow> x = 0"
proof
  assume r: "round_to p x = 0"
  show "x = 0"
  proof (rule ccontr)
    assume "x \<noteq> 0"
    then consider "0 < x" | "x < 0" by linarith
    then show False
    proof cases
      case 1
      from round_to_pos [OF this assms] r show False by simp
    next
      case 2
      from round_to_neg [OF assms this] r show False by simp
    qed
  qed
qed simp

lemma round_to_frac:
  assumes "\<bar>m\<bar> < 2 ^ p"
  shows "round_to p (of_int m / 2 ^ j) = of_int m / 2 ^ j"
proof -
  have "of_int m / (2 :: real) ^ j = of_int m * 2 powi (- int j)"
    by (simp add: power_int_minus divide_inverse)
  then show ?thesis
    using round_to_exact [OF assms, of "- int j"] by simp
qed

lemma f32_zero [simp]: "f32 0 = 0"
  by (simp add: f32_def)

lemma f64_zero [simp]: "f64 0 = 0"
  by (simp add: f64_def)

lemma f32_mono: "x \<le> y \<Longrightarrow> f32 x \<le> f32 y"
  unfolding f32_def by (rule round_to_mono) simp_all

lemma f64_mono: "x \<le> y \<Longrightarrow> f64 x \<le> f64 y"
  unfolding f64_def by (rule round_to_mono) simp_all

lemma f32_pos: "0 < x \<Longrightarrow> 0 < f32 x"
  unfolding f32_def by (rule round_to_pos) simp_all

lemma f64_pos: "0 < x \<Longrightarrow> 0 < f64 x"
  unfolding f64_def by (rule round_to_pos) simp_all

lemma f32_nonneg: "0 \<le> x \<Longrightarrow> 0 \<le> f32 x"
  unfolding f32_def by (rule round_to_nonneg) simp_all

lemma f32_neg: "x < 0 \<Longrightarrow> f32 x < 0"
  unfolding f32_def by (rule round_to_neg) simp_all

lemma f32_eq_0_iff [simp]: "f32 x = 0 \<longleftrightarrow> x = 0"
  unfolding f32_def by (rule round_to_eq_0_iff) simp

lemma f32_minus: "f32 (- x) = - f32 x"
  by (simp add: f32_def round_to_minus)

lemma f32_of_int: "\<bar>m\<bar> < 2 ^ 24 \<Longrightarrow> f32 (of_int m) = of_int m"
  unfolding f32_def by (rule round_to_of_int)

lemma f32_of_nat: "n < 2 ^ 24 \<Longrightarrow> f32 (of_nat n) = of_nat n"
  unfolding f32_def by (rule round_to_of_nat)

lemma f32_one [simp]: "f32 1 = 1"
  using f32_of_nat [of 1] by simp

lemma f32_numeral [simp]: "(numeral w :: nat) < 2 ^ 24 \<Longrightarrow> f32 (numeral w) = numeral w"
  using f32_of_nat [of "numeral w"] by simp

lemma f32_frac: "\<bar>m\<bar> < 2 ^ 24 \<Longrightarrow> f32 (of_int m / 2 ^ j) = of_int m / 2 ^ j"
  unfolding f32_def by (rule round_to_frac)

lemma f64_frac: "\<bar>m\<bar> < 2 ^ 53 \<Longrightarrow> f64 (of_int m / 2 ^ j) = of_int m / 2 ^ j"
  unfolding f64_def by (rule round_to_frac)

lemma f64_of_nat: "n < 2 ^ 53 \<Longrightarrow> f64 (of_nat n) = of_nat n"
  unfolding f64_def by (rule round_to_of_nat)

lemma f64_numeral [simp]: "(numeral w :: nat) < 2 ^ 53 \<Longrightarrow> f64 (numeral w) = numeral w"
  using f64_of_nat [of "numeral w"] by simp

lemma f64_one [simp]: "f64 1 = 1"
  using f64_of_nat [of 1] by simp


lemma f64_eval:
  assumes "2 powi e \<le> \<bar>x\<bar>" and "\<bar>x\<bar> < 2 powi (e + 1)"
  shows "f64 x = of_int (rne (x / 2 powi (e - 52))) * 2 powi (e - 52)"
  using round_to_eval [OF assms, of 53] by (simp add: f64_def)

text \<open>Some numbers of the two formats.\<close>

lemma f32_half [simp]: "f32 (1 / 2) = 1 / 2"
  using f32_frac [of 1 1] by simp

lemma f64_quarter [simp]: "f64 (1 / 4) = 1 / 4"
  using f64_frac [of 1 2] by simp

lemma f64_eighth [simp]: "f64 (1 / 8) = 1 / 8"
  using f64_frac [of 1 3] by simp

lemma f64_half [simp]: "f64 (1 / 2) = 1 / 2"
  using f64_frac [of 1 1] by simp

lemma f32_five_halves [simp]: "f32 (5 / 2) = 5 / 2"
  using f32_frac [of 5 1] by simp

lemma f64_five_halves [simp]: "f64 (5 / 2) = 5 / 2"
  using f64_frac [of 5 1] by simp

section \<open>Properties of the rank extractor\<close>


lemma zip_upt_map: "zip xs [0..<length xs] = map (\<lambda>j. (xs ! j, j)) [0..<length xs]"
  by (rule nth_equalityI) simp_all

lemma mset_argsort_desc: "mset (argsort_desc xs) = mset [0..<length xs]"
proof -
  let ?ps = "zip xs [0..<length xs]"
  have "mset (argsort_desc xs) = image_mset snd (mset ?ps)"
    unfolding argsort_desc_def by (simp only: mset_map mset_sort)
  also have "\<dots> = mset (map snd ?ps)"
    by (simp only: mset_map)
  also have "map snd ?ps = [0..<length xs]"
    by (simp only: map_snd_zip length_upt minus_nat.diff_0)
  finally show ?thesis .
qed

lemma length_argsort_desc: "length (argsort_desc xs) = length xs"
  using mset_argsort_desc [of xs] by (metis length_upt mset_eq_length minus_nat.diff_0)

lemma distinct_argsort_desc: "distinct (argsort_desc xs)"
  using mset_argsort_desc [of xs] by (metis distinct_upt mset_eq_imp_distinct_iff)

lemma set_argsort_desc: "set (argsort_desc xs) = {0..<length xs}"
  using mset_argsort_desc [of xs] by (metis mset_eq_setD set_upt)

lemma nonzero_eq_split:
  assumes "distinct (us @ i # vs)"
  shows "nonzero_eq (us @ i # vs) i = [length us]"
proof -
  let ?v = "us @ i # vs"
  have eq: "\<And>p. p < length ?v \<Longrightarrow> (?v ! p = i) = (p = length us)"
  proof -
    fix p assume p: "p < length ?v"
    have "?v ! length us = i" by simp
    moreover have "length us < length ?v" by simp
    ultimately show "(?v ! p = i) = (p = length us)"
      using assms p nth_eq_iff_index_eq by metis
  qed
  have "nonzero_eq ?v i = filter (\<lambda>p. p = length us) [0..<length ?v]"
    unfolding nonzero_eq_def by (rule filter_cong) (use eq in auto)
  also have "[0..<length ?v] = [0..<length us] @ length us # [Suc (length us)..<length ?v]"
    by (metis add_Suc_right le_add1 length_Cons length_append less_add_Suc1 upt_add_eq_append upt_conv_Cons zero_le)
  also have "filter (\<lambda>p. p = length us) \<dots> = [length us]"
    by (auto simp: filter_empty_conv)
  finally show ?thesis .
qed


lemma desc_key_eq_iff: "desc_key a = desc_key b \<longleftrightarrow> a = b"
  by (cases a; cases b) simp_all

lemma sorted_prefix_count:
  fixes k :: "'a \<Rightarrow> 'b::linorder"
  assumes "sorted (map k (as @ x # bs))"
  shows "length as
       = length (filter (\<lambda>y. k y < k x) (as @ x # bs)) + length (filter (\<lambda>y. k y = k x) as)"
proof -
  from assms have before: "\<forall>y\<in>set as. k y \<le> k x" and after: "\<forall>y\<in>set bs. k x \<le> k y"
    by (auto simp: sorted_append)
  have "filter (\<lambda>y. k y < k x) bs = []"
    using after by (auto simp: filter_empty_conv)
  then have "length (filter (\<lambda>y. k y < k x) (as @ x # bs)) = length (filter (\<lambda>y. k y < k x) as)"
    by simp
  moreover have "filter (\<lambda>y. k y = k x) as = filter (\<lambda>y. \<not> k y < k x) as"
    by (rule filter_cong) (use before in auto)
  moreover have "length as
       = length (filter (\<lambda>y. k y < k x) as) + length (filter (\<lambda>y. \<not> k y < k x) as)"
    by (simp add: sum_length_filter_compl)
  ultimately show ?thesis by simp
qed

lemma stable_prefix:
  assumes "filter P (as @ x # bs) = filter P (cs @ x # ds)"
    and "P x" and "x \<notin> set as" and "x \<notin> set bs"
  shows "filter P as = filter P cs"
proof -
  from assms(1,2) have eq: "filter P as @ x # filter P bs = filter P cs @ x # filter P ds"
    by simp
  have "x \<notin> set (filter P as)" and "x \<notin> set (filter P bs)"
    using assms(3,4) by simp_all
  then show ?thesis
    using eq append_Cons_eq_iff [of x "filter P as" "filter P bs" "filter P cs" "filter P ds"]
    by blast
qed

lemma argsort_desc_position:
  assumes i: "i < length xs"
  shows "\<exists>us vs. argsort_desc xs = us @ i # vs \<and>
           length us = length (filter (\<lambda>j. desc_key (xs ! j) < desc_key (xs ! i)) [0..<length xs])
                     + length (filter (\<lambda>j. xs ! j = xs ! i) [0..<i])"
proof -
  let ?n = "length xs"
  let ?f = "\<lambda>j. (xs ! j, j)"
  let ?ps = "zip xs [0..<?n]"
  let ?k = "\<lambda>p :: fl \<times> nat. desc_key (fst p)"
  let ?ss = "sort_key ?k ?ps"
  let ?x = "(xs ! i, i)"
  have ps: "?ps = map ?f [0..<?n]" by (rule zip_upt_map)
  have dps: "distinct ?ps"
    by (simp add: distinct_zipI2)
  define cs where "cs = take i ?ps"
  define ds where "ds = drop (Suc i) ?ps"
  have "?ps ! i = ?x" using i by simp
  moreover have "i < length ?ps" using i by simp
  ultimately have psplit: "?ps = cs @ ?x # ds"
    unfolding cs_def ds_def by (metis id_take_nth_drop)
  have "?x \<in> set ?ss"
    using i by (simp add: ps)
  then obtain as bs where ss: "?ss = as @ ?x # bs"
    by (meson split_list)
  have dss: "distinct ?ss" using dps by simp
  have xas: "?x \<notin> set as" using dss unfolding ss by simp
  have xbs: "?x \<notin> set bs" using dss unfolding ss by simp
  have "sorted (map ?k (as @ ?x # bs))"
    using sorted_sort_key [of ?k ?ps] unfolding ss .
  then have cnt: "length as = length (filter (\<lambda>y. ?k y < ?k ?x) ?ss)
                            + length (filter (\<lambda>y. ?k y = ?k ?x) as)"
    unfolding ss by (rule sorted_prefix_count)
  have "mset (filter (\<lambda>y. ?k y < ?k ?x) ?ss) = mset (filter (\<lambda>y. ?k y < ?k ?x) ?ps)"
    by (simp only: mset_filter mset_sort)
  then have "length (filter (\<lambda>y. ?k y < ?k ?x) ?ss) = length (filter (\<lambda>y. ?k y < ?k ?x) ?ps)"
    by (rule mset_eq_length)
  also have "\<dots> = length (filter (\<lambda>j. desc_key (xs ! j) < desc_key (xs ! i)) [0..<?n])"
    by (simp only: ps filter_map length_map o_def fst_conv)
  finally have less: "length (filter (\<lambda>y. ?k y < ?k ?x) ?ss)
      = length (filter (\<lambda>j. desc_key (xs ! j) < desc_key (xs ! i)) [0..<?n])" .
  have "filter (\<lambda>y. ?k y = ?k ?x) ?ss = filter (\<lambda>y. ?k y = ?k ?x) ?ps"
    by (rule sort_key_stable)
  then have "filter (\<lambda>y. ?k y = ?k ?x) (as @ ?x # bs)
      = filter (\<lambda>y. ?k y = ?k ?x) (cs @ ?x # ds)"
    by (simp only: flip: ss psplit)
  from stable_prefix [OF this _ xas xbs]
  have "filter (\<lambda>y. ?k y = ?k ?x) as = filter (\<lambda>y. ?k y = ?k ?x) cs"
    by simp
  moreover have "cs = map ?f [0..<i]"
    unfolding cs_def using i by (simp add: ps take_map take_upt del: zip_upt_map)
  ultimately have "length (filter (\<lambda>y. ?k y = ?k ?x) as)
      = length (filter (\<lambda>j. xs ! j = xs ! i) [0..<i])"
    by (simp add: filter_map o_def desc_key_eq_iff)
  with cnt less have "length as
      = length (filter (\<lambda>j. desc_key (xs ! j) < desc_key (xs ! i)) [0..<?n])
      + length (filter (\<lambda>j. xs ! j = xs ! i) [0..<i])"
    by simp
  moreover have "argsort_desc xs = map snd as @ i # map snd bs"
    by (simp add: argsort_desc_def ss)
  ultimately show ?thesis
    by (metis length_map)
qed


lemma ncols_matrix: "is_matrix n c m \<Longrightarrow> 0 < n \<Longrightarrow> ncols m = c"
  by (cases m) (auto simp: is_matrix_def ncols_def)

lemma sort_indices_position:
  assumes "i < length m"
  shows "\<exists>us vs. sort_indices m i = us @ i # vs \<and> length us + 1 = rank_of m i"
proof -
  let ?xs = "column i m"
  have len: "length ?xs = length m" by (simp add: column_def)
  have nth: "\<And>j. j < length m \<Longrightarrow> ?xs ! j = m ! j ! i" by (simp add: column_def)
  from assms have "i < length ?xs" by (simp add: len)
  from argsort_desc_position [OF this] obtain us vs where
    split: "argsort_desc ?xs = us @ i # vs" and
    cnt: "length us = length (filter (\<lambda>j. desc_key (?xs ! j) < desc_key (?xs ! i)) [0..<length ?xs])
                   + length (filter (\<lambda>j. ?xs ! j = ?xs ! i) [0..<i])"
    by blast
  have "filter (\<lambda>j. desc_key (?xs ! j) < desc_key (?xs ! i)) [0..<length ?xs]
      = filter (\<lambda>j. desc_key (m ! j ! i) < desc_key (m ! i ! i)) [0..<length m]"
    unfolding len by (rule filter_cong) (use assms nth in auto)
  moreover have "filter (\<lambda>j. ?xs ! j = ?xs ! i) [0..<i] = filter (\<lambda>j. m ! j ! i = m ! i ! i) [0..<i]"
    by (rule filter_cong) (use assms nth in auto)
  ultimately have "length us + 1 = rank_of m i"
    using cnt by (simp add: rank_of_def)
  with split show ?thesis by (auto simp: sort_indices_def)
qed

lemma rank_step_value:
  assumes "is_matrix n c m" and "i < n" and "i < c"
  shows "rank_step m i (Inr r) = Inr (r[i := rank_of m i])"
proof -
  from assms have len: "i < length m" by (simp add: is_matrix_def)
  from sort_indices_position [OF len] obtain us vs where
    split: "sort_indices m i = us @ i # vs" and rk: "length us + 1 = rank_of m i"
    by blast
  have "distinct (sort_indices m i)"
    by (simp add: sort_indices_def distinct_argsort_desc)
  then have "nonzero_eq (sort_indices m i) i = [length us]"
    unfolding split by (rule nonzero_eq_split)
  moreover have "ncols m = c"
    using assms by (intro ncols_matrix [of n]) auto
  ultimately show ?thesis
    using assms(3) rk by (simp add: rank_step_def)
qed

lemma fold_rank_step:
  assumes "is_matrix n c m" and "n \<le> c" and "length r = n"
  shows "k \<le> n \<Longrightarrow> fold (rank_step m) [0..<k] (Inr r) = Inr (map (rank_of m) [0..<k] @ drop k r)"
proof (induction k)
  case 0
  then show ?case by simp
next
  case (Suc k)
  then have k: "k < n" by simp
  with assms(2) have kc: "k < c" by simp
  have "fold (rank_step m) [0..<Suc k] (Inr r)
      = rank_step m k (Inr (map (rank_of m) [0..<k] @ drop k r))"
    using Suc by simp
  also have "\<dots> = Inr ((map (rank_of m) [0..<k] @ drop k r)[k := rank_of m k])"
    using assms(1) k kc by (rule rank_step_value)
  also have "(map (rank_of m) [0..<k] @ drop k r)[k := rank_of m k]
      = map (rank_of m) [0..<k] @ (drop k r)[0 := rank_of m k]"
    by (simp add: list_update_append)
  also have "drop k r = r ! k # drop (Suc k) r"
    using k assms(3) by (simp add: Cons_nth_drop_Suc)
  finally show ?case by simp
qed

lemma compute_diag_ranks_eq:
  assumes "is_matrix n c m" and "n \<le> c"
  shows "compute_diag_ranks m = Inr (map (rank_of m) [0..<n])"
proof -
  have n: "length m = n" using assms(1) by (simp add: is_matrix_def)
  have "fold (rank_step m) [0..<n] (Inr (replicate n 0))
      = Inr (map (rank_of m) [0..<n] @ drop n (replicate n 0))"
    using fold_rank_step [OF assms, of "replicate n 0" n] by simp
  then show ?thesis by (simp add: compute_diag_ranks_def n)
qed

lemma rank_of_bounds:
  assumes "i < length m"
  shows "1 \<le> rank_of m i \<and> rank_of m i \<le> length m"
proof -
  from sort_indices_position [OF assms] obtain us vs where
    split: "sort_indices m i = us @ i # vs" and rk: "length us + 1 = rank_of m i"
    by blast
  have "length (sort_indices m i) = length m"
    by (simp add: sort_indices_def length_argsort_desc column_def)
  then have "length us + 1 \<le> length m"
    unfolding split by simp
  with rk show ?thesis by simp
qed



text \<open>
  Claim C6. For every N by N distance matrix the rank extractor returns a rank vector, and
  every entry of it lies between 1 and N inclusive.
\<close>

theorem rank_bounds:
  assumes "is_matrix n n m"
  shows "\<exists>ranks. compute_diag_ranks m = Inr ranks \<and> length ranks = n \<and>
           (\<forall>r\<in>set ranks. 1 \<le> r \<and> r \<le> n)"
proof -
  have n: "length m = n" using assms by (simp add: is_matrix_def)
  have eq: "compute_diag_ranks m = Inr (map (rank_of m) [0..<n])"
    using assms by (rule compute_diag_ranks_eq) simp
  have "\<forall>r\<in>set (map (rank_of m) [0..<n]). 1 \<le> r \<and> r \<le> n"
    using rank_of_bounds [of _ m] by (auto simp: n)
  with eq show ?thesis by simp
qed

theorem rank_bounds_witness:
  "is_matrix 3 3 [[Fin 0, Fin 1, Fin 2], [Fin 3, Fin 0, Fin 4], [Fin 5, Fin 6, Fin 0]] \<and>
   (\<exists>ranks. compute_diag_ranks [[Fin 0, Fin 1, Fin 2], [Fin 3, Fin 0, Fin 4], [Fin 5, Fin 6, Fin 0]]
              = Inr ranks \<and> length ranks = 3 \<and> (\<forall>r\<in>set ranks. 1 \<le> r \<and> r \<le> 3))"
proof -
  have h: "is_matrix 3 3 [[Fin 0, Fin 1, Fin 2], [Fin 3, Fin 0, Fin 4], [Fin 5, Fin 6, Fin 0]]"
    by (simp add: is_matrix_def)
  show ?thesis using h rank_bounds [OF h] by simp
qed

lemma larger_Fin [simp]: "larger (Fin x) (Fin y) \<longleftrightarrow> y < x"
  by (simp add: larger_def)

lemma sorted_argsort_desc: "sorted (map (\<lambda>j. desc_key (xs ! j)) (argsort_desc xs))"
proof -
  let ?ps = "zip xs [0..<length xs]"
  let ?k = "\<lambda>p :: fl \<times> nat. desc_key (fst p)"
  let ?ss = "sort_key ?k ?ps"
  have "\<forall>p\<in>set ?ss. fst p = xs ! snd p"
    by (auto simp: set_zip)
  then have "map (\<lambda>j. desc_key (xs ! j)) (map snd ?ss) = map ?k ?ss"
    by simp
  moreover have "sorted (map ?k ?ss)"
    by (rule sorted_sort_key)
  ultimately show ?thesis
    by (simp only: argsort_desc_def)
qed

lemma sorted_sort_indices:
  assumes "is_matrix n c m" and "i < c"
  shows "sorted (map (\<lambda>j. desc_key (m ! j ! i)) (sort_indices m i))"
proof -
  have "set (sort_indices m i) = {0..<length m}"
    by (simp add: sort_indices_def set_argsort_desc column_def)
  then have "map (\<lambda>j. desc_key (m ! j ! i)) (sort_indices m i)
      = map (\<lambda>j. desc_key (column i m ! j)) (sort_indices m i)"
    by (simp add: column_def)
  then show ?thesis
    by (simp only: sort_indices_def sorted_argsort_desc)
qed

lemma length_filter_neq_upt:
  assumes "i < n"
  shows "length (filter (\<lambda>j. j \<noteq> i) [0..<n]) = n - 1"
proof -
  have "[0..<n] = [0..<i] @ i # [Suc i..<n]"
    using assms by (metis le_add1 less_imp_add_positive plus_nat.add_0 upt_add_eq_append upt_conv_Cons)
  then have "filter (\<lambda>j. j \<noteq> i) [0..<n] = [0..<i] @ [Suc i..<n]"
    by (simp add: filter_id_conv)
  then show ?thesis using assms by simp
qed

lemma rank_of_smallest:
  assumes "i < length m"
    and "\<forall>j<length m. j \<noteq> i \<longrightarrow> larger (m ! j ! i) (m ! i ! i)"
  shows "rank_of m i = length m"
proof -
  have "filter (\<lambda>j. desc_key (m ! j ! i) < desc_key (m ! i ! i)) [0..<length m]
      = filter (\<lambda>j. j \<noteq> i) [0..<length m]"
    by (rule filter_cong) (use assms(2) in \<open>auto simp: larger_def\<close>)
  moreover have "filter (\<lambda>j. m ! j ! i = m ! i ! i) [0..<i] = []"
  proof -
    have "m ! j ! i \<noteq> m ! i ! i" if "j < i" for j
    proof -
      from that assms(1) have "j < length m" and "j \<noteq> i" by simp_all
      with assms(2) show ?thesis by (auto simp: larger_def)
    qed
    then show ?thesis by (simp add: filter_empty_conv)
  qed
  ultimately show ?thesis
    using assms(1) by (simp add: rank_of_def length_filter_neq_upt)
qed

lemma rank_of_largest:
  assumes "i < length m"
    and "\<forall>j<length m. j \<noteq> i \<longrightarrow> larger (m ! i ! i) (m ! j ! i)"
  shows "rank_of m i = 1"
proof -
  have "filter (\<lambda>j. desc_key (m ! j ! i) < desc_key (m ! i ! i)) [0..<length m] = []"
    using assms(2) by (fastforce simp: filter_empty_conv larger_def)
  moreover have "filter (\<lambda>j. m ! j ! i = m ! i ! i) [0..<i] = []"
  proof -
    have "m ! j ! i \<noteq> m ! i ! i" if "j < i" for j
    proof -
      from that assms(1) have "j < length m" and "j \<noteq> i" by simp_all
      with assms(2) show ?thesis by (auto simp: larger_def)
    qed
    then show ?thesis by (simp add: filter_empty_conv)
  qed
  ultimately show ?thesis
    by (simp add: rank_of_def)
qed

text \<open>
  On a column whose values are pairwise different, every list of the row indices along
  which the values descend is the one of \<^const>\<open>argsort_desc\<close>: whatever order a sort
  gives to equal values, the rank extractor returns the same ranks on a matrix without
  ties in its columns.
\<close>

lemma argsort_desc_unique:
  assumes "distinct xs" and "mset idx = mset [0..<length xs]"
    and "sorted (map (\<lambda>j. desc_key (xs ! j)) idx)"
  shows "idx = argsort_desc xs"
proof -
  let ?k = "\<lambda>j. desc_key (xs ! j)"
  have set_idx: "set idx = {0..<length xs}"
    using assms(2) by (metis mset_eq_setD set_upt)
  have dist_idx: "distinct idx"
    using assms(2) by (metis distinct_upt mset_eq_imp_distinct_iff)
  have inj: "inj_on ?k {0..<length xs}"
    using assms(1) by (auto simp: inj_on_def desc_key_eq_iff nth_eq_iff_index_eq)
  have "map ?k idx = map ?k (argsort_desc xs)"
  proof (rule sorted_distinct_set_unique)
    show "sorted (map ?k idx)" by (rule assms(3))
    show "sorted (map ?k (argsort_desc xs))" by (rule sorted_argsort_desc)
    show "distinct (map ?k idx)"
      using inj dist_idx set_idx by (simp add: distinct_map)
    show "distinct (map ?k (argsort_desc xs))"
      using inj by (simp add: distinct_map distinct_argsort_desc set_argsort_desc)
    show "set (map ?k idx) = set (map ?k (argsort_desc xs))"
      by (simp add: set_idx set_argsort_desc)
  qed
  moreover have "inj_on ?k (set idx \<union> set (argsort_desc xs))"
    using inj by (simp add: set_idx set_argsort_desc)
  ultimately show ?thesis
    by (simp only: inj_on_map_eq_map)
qed

text \<open>
  Claim C1 says that the rank extractor sorts column \<open>i\<close> ascending, so that the item with
  the smallest distance in its column receives rank 1. The code sorts descending
  (\<^verbatim>\<open>torch.sort(matrix, dim=0, descending=True)\<close>). On the matrix below the diagonal entry
  is the smallest value of its column, in every column, and no column holds a value twice:
  the claim gives every item rank 1, the code returns rank 3 for every item.
\<close>

theorem diag_ranks_failing_input:
  "compute_diag_ranks [[Fin 0, Fin 1, Fin 2], [Fin 3, Fin 0, Fin 4], [Fin 5, Fin 6, Fin 0]]
     = Inr [3, 3, 3] \<and>
   spec_diag_ranks [[Fin 0, Fin 1, Fin 2], [Fin 3, Fin 0, Fin 4], [Fin 5, Fin 6, Fin 0]]
     = [1, 1, 1]"
  by code_simp

section \<open>Properties of the scorer\<close>

lemma map_of_topk_fold:
  "map_of (fold (topk_step n ranks) ks d) (Top k)
     = (if k \<in> set ks
        then Some (percent (int_tensor (count_le ranks (number_values n k))) n)
        else map_of d (Top k))"
  by (induction ks arbitrary: d) (auto simp: topk_step_def update_conv')

lemma map_of_topk_fold_other:
  "\<forall>k. key \<noteq> Top k \<Longrightarrow> map_of (fold (topk_step n ranks) ks d) key = map_of d key"
  by (induction ks arbitrary: d) (auto simp: topk_step_def update_conv')

lemma scores_top:
  assumes "k \<in> set ks"
  shows "map_of (scores n ranks ks) (Top k)
       = Some (percent (int_tensor (count_le ranks (number_values n k))) n)"
  using assms by (simp add: scores_def Let_def update_conv' map_of_topk_fold)

lemma scores_mean_ranks:
  "map_of (scores n ranks ks) Mean_ranks = Some (percent (torch_mean (map int_tensor ranks)) n)"
  by (simp add: scores_def Let_def update_conv')

lemma scores_exact_matching:
  "map_of (scores n ranks ks) Exact_matching = Some (percent (int_tensor (count_eq ranks 0)) n)"
  by (simp add: scores_def Let_def update_conv')

lemma f32_real_pos: "0 < n \<Longrightarrow> 0 < f32 (real n)"
  by (rule f32_pos) simp

lemma percent_Fin: "0 < n \<Longrightarrow> percent (Fin c) n = Fin (f32 (f32 (c / f32 (real n)) * 100))"
  using f32_real_pos [of n] by (simp add: percent_def)

lemma percent_zero: "0 < n \<Longrightarrow> percent (int_tensor 0) n = Fin 0"
  by (simp add: percent_Fin int_tensor_def)

lemma percent_mono:
  assumes "0 < n" and "c \<le> d"
  shows "f32 (f32 (c / f32 (real n)) * 100) \<le> f32 (f32 (d / f32 (real n)) * 100)"
proof -
  have "c / f32 (real n) \<le> d / f32 (real n)"
    using assms(2) f32_real_pos [OF assms(1)] by (simp add: divide_right_mono)
  then have "f32 (c / f32 (real n)) \<le> f32 (d / f32 (real n))"
    by (rule f32_mono)
  then have "f32 (c / f32 (real n)) * 100 \<le> f32 (d / f32 (real n)) * 100"
    by simp
  then show ?thesis by (rule f32_mono)
qed

lemma count_le_mono:
  assumes "s \<le> t"
  shows "count_le ranks s \<le> count_le ranks t"
proof -
  have "f32 s \<le> f32 t" using assms by (rule f32_mono)
  then show ?thesis
    unfolding count_le_def by (induction ranks) auto
qed

lemma number_values_mono:
  assumes "py_val k1 \<le> py_val k2"
  shows "number_values n k1 \<le> number_values n k2"
proof -
  have "py_val k1 / 100 \<le> py_val k2 / 100"
    using assms by simp
  then have "f64 (py_val k1 / 100) \<le> f64 (py_val k2 / 100)"
    by (rule f64_mono)
  then have "real n * f64 (py_val k1 / 100) \<le> real n * f64 (py_val k2 / 100)"
    by (simp add: mult_left_mono)
  then show ?thesis
    unfolding number_values_def by (rule f64_mono)
qed





















text \<open>
  The threshold of 1000 items for the percentage 0.3. The Python float \<^verbatim>\<open>0.3\<close> is the
  double below three tenths; \<^verbatim>\<open>0.3/100\<close> rounds up, and \<^verbatim>\<open>1000 * (0.3/100)\<close> is the
  double 3.0, which admits rank 3.
\<close>

lemma number_values_1000_03:
  "number_values 1000 (PyFloat (5404319552844595 / 18014398509481984)) = 3"
proof -
  have q: "f64 (5404319552844595 / 18014398509481984 / 100)
      = 6917529027641082 / 2305843009213693952"
  proof -
    have "f64 (5404319552844595 / 18014398509481984 / 100)
        = of_int (rne ((5404319552844595 / 18014398509481984 / 100) / 2 powi (- 9 - 52)))
            * 2 powi (- 9 - 52)"
      by (rule f64_eval) simp_all
    also have "\<dots> = 6917529027641082 / 2305843009213693952"
      by (simp add: rne_def Let_def)
    finally show ?thesis .
  qed
  have p: "f64 (1000 * (6917529027641082 / 2305843009213693952)) = 3"
  proof -
    have "f64 (1000 * (6917529027641082 / 2305843009213693952))
        = of_int (rne ((1000 * (6917529027641082 / 2305843009213693952)) / 2 powi (1 - 52)))
            * 2 powi (1 - 52)"
      by (rule f64_eval) simp_all
    also have "\<dots> = 3"
      by (simp add: rne_def Let_def)
    finally show ?thesis .
  qed
  have "number_values 1000 (PyFloat (5404319552844595 / 18014398509481984))
      = f64 (real 1000 * f64 (5404319552844595 / 18014398509481984 / 100))"
    by (simp only: number_values_def py_val.simps)
  also have "\<dots> = f64 (1000 * (6917529027641082 / 2305843009213693952))"
    by (simp only: q of_nat_numeral)
  also have "\<dots> = 3" by (rule p)
  finally show ?thesis .
qed

text \<open>
  Claim C7. For a fixed rank vector, \<open>N \<ge> 1\<close> and two requested percentages \<open>K1 \<le> K2\<close>,
  the score \<open>topK1\<close> is at most the score \<open>topK2\<close>.
\<close>

theorem topk_monotone:
  assumes "k1 \<in> set k_range" and "k2 \<in> set k_range" and "py_val k1 \<le> py_val k2" and "0 < n"
  shows "\<exists>s1 s2. map_of (scores n ranks k_range) (Top k1) = Some (Fin s1)
               \<and> map_of (scores n ranks k_range) (Top k2) = Some (Fin s2) \<and> s1 \<le> s2"
proof -
  let ?c = "\<lambda>k. count_le ranks (number_values n k)"
  let ?s = "\<lambda>k. f32 (f32 (f32 (real (?c k)) / f32 (real n)) * 100)"
  have "number_values n k1 \<le> number_values n k2"
    using assms(3) by (rule number_values_mono)
  then have "?c k1 \<le> ?c k2" by (rule count_le_mono)
  then have "f32 (real (?c k1)) \<le> f32 (real (?c k2))"
    by (intro f32_mono) simp
  with assms(4) have "?s k1 \<le> ?s k2" by (rule percent_mono)
  moreover have "map_of (scores n ranks k_range) (Top k1) = Some (Fin (?s k1))"
    using scores_top [OF assms(1)] assms(4) by (simp add: percent_Fin int_tensor_def)
  moreover have "map_of (scores n ranks k_range) (Top k2) = Some (Fin (?s k2))"
    using scores_top [OF assms(2)] assms(4) by (simp add: percent_Fin int_tensor_def)
  ultimately show ?thesis by blast
qed

theorem topk_monotone_witness:
  "PyInt 5 \<in> set [PyInt 1, PyInt 5, PyFloat 50] \<and> PyFloat 50 \<in> set [PyInt 1, PyInt 5, PyFloat 50] \<and>
   py_val (PyInt 5) \<le> py_val (PyFloat 50) \<and> (0 :: nat) < 4 \<and>
   (\<exists>s1 s2. map_of (scores 4 [4, 1, 2, 3] [PyInt 1, PyInt 5, PyFloat 50]) (Top (PyInt 5)) = Some (Fin s1)
          \<and> map_of (scores 4 [4, 1, 2, 3] [PyInt 1, PyInt 5, PyFloat 50]) (Top (PyFloat 50)) = Some (Fin s2)
          \<and> s1 \<le> s2)"
  using topk_monotone [of "PyInt 5" "[PyInt 1, PyInt 5, PyFloat 50]" "PyFloat 50" 4 "[4, 1, 2, 3]"]
  by simp

text \<open>
  The entry \<^verbatim>\<open>exact_matching\<close> counts the ranks equal to 0. The rank extractor returns ranks
  from 1 on, so the entry is zero whatever the ranks are.
\<close>

lemma exact_matching_zero:
  assumes "\<forall>r\<in>set ranks. 1 \<le> r" and "0 < n"
  shows "map_of (scores n ranks k_range) Exact_matching = Some (Fin 0)"
proof -
  have "filter (\<lambda>r. r = 0) ranks = []"
    using assms(1) by (auto simp: filter_empty_conv)
  then show ?thesis
    using assms(2) by (simp add: scores_exact_matching count_eq_def percent_zero)
qed

text \<open>
  For at most 4 items and a percentage of at most 10 the threshold is at most one half,
  and no rank from 1 on passes it.
\<close>

lemma number_values_small:
  assumes "py_val k \<le> 10" and "n \<le> 4"
  shows "f32 (number_values n k) \<le> 1 / 2"
proof -
  have "py_val k / 100 \<le> 1 / 8" using assms(1) by simp
  then have "f64 (py_val k / 100) \<le> f64 (1 / 8)" by (rule f64_mono)
  then have "f64 (py_val k / 100) \<le> 1 / 8" by simp
  then have "real n * f64 (py_val k / 100) \<le> real n * (1 / 8)"
    by (intro mult_left_mono) simp_all
  also have "\<dots> \<le> 1 / 2" using assms(2) by simp
  finally have "f64 (real n * f64 (py_val k / 100)) \<le> f64 (1 / 2)" by (rule f64_mono)
  then have "number_values n k \<le> 1 / 2" by (simp add: number_values_def)
  then have "f32 (number_values n k) \<le> f32 (1 / 2)" by (rule f32_mono)
  then show ?thesis by simp
qed

lemma count_le_none:
  assumes "\<forall>r\<in>set ranks. 1 \<le> r" and "f32 t \<le> 1 / 2"
  shows "count_le ranks t = 0"
proof -
  have "\<not> f32 (real r) \<le> f32 t" if "r \<in> set ranks" for r
  proof -
    from that assms(1) have "1 \<le> real r" by simp
    then have "f32 1 \<le> f32 (real r)" by (rule f32_mono)
    with assms(2) show ?thesis by simp
  qed
  then show ?thesis
    by (simp add: count_le_def filter_empty_conv)
qed

lemma topk_step_small:
  assumes "\<forall>r\<in>set ranks. 1 \<le> r" and "py_val k \<le> 10" and "n \<le> 4" and "0 < n"
  shows "topk_step n ranks k d = AList.update (Top k) (Fin 0) d"
  using count_le_none [OF assms(1) number_values_small [OF assms(2,3)]] assms(4)
  by (simp add: topk_step_def percent_zero)

text \<open>
  Claim C2 says that \<^verbatim>\<open>exact_matching\<close> is the share of the items of rank 1. The code
  tests the ranks against 0 (\<^verbatim>\<open>(ranks == 0).sum()\<close>). One item compared with itself has
  rank 1, an exact match, and the pipeline reports \<^verbatim>\<open>exact_matching\<close> 0 where the claim
  gives 100.
\<close>

theorem exact_matching_failing_input:
  "compute_diag_ranks [[Fin 0]] = Inr [1] \<and>
   call \<lparr>method_name = ''euclidean'', aggregate = ''mean''\<rparr> (Rank2 [[Fin 7]]) (Rank2 [[Fin 7]])
        [PyInt 1, PyInt 5, PyInt 10]
   = Inr [(Top (PyInt 1), Fin 0), (Top (PyInt 5), Fin 0), (Top (PyInt 10), Fin 0),
          (Mean_ranks, Fin 100), (Exact_matching, Fin 0)]"
proof -
  have m: "euclidean [[Fin 7]] [[Fin 7]] = Inr [[Fin 0]]"
    by (simp add: euclidean_def pairwise_rows_def broadcast2_def broadcast_rows_def norm_p2_def
        torch_sum_def fsub_def)
  have r: "compute_diag_ranks [[Fin 0]] = Inr [1]"
    by code_simp
  have t: "topk_step (Suc 0) [Suc 0] k d = AList.update (Top k) (Fin 0) d" if "py_val k \<le> 10" for k d
    using that by (intro topk_step_small) simp_all
  have mr: "percent (torch_mean (map int_tensor [Suc 0])) (Suc 0) = Fin 100"
    by (simp add: torch_mean_def torch_sum_def int_tensor_def percent_def)
  have ex: "percent (int_tensor (count_eq [Suc 0] 0)) (Suc 0) = Fin 0"
    by (simp add: count_eq_def percent_def int_tensor_def)
  have s: "scores (Suc 0) [Suc 0] [PyInt 1, PyInt 5, PyInt 10]
      = [(Top (PyInt 1), Fin 0), (Top (PyInt 5), Fin 0), (Top (PyInt 10), Fin 0),
         (Mean_ranks, Fin 100), (Exact_matching, Fin 0)]"
    unfolding scores_def Let_def mr ex by (simp add: t)
  have "call \<lparr>method_name = ''euclidean'', aggregate = ''mean''\<rparr> (Rank2 [[Fin 7]])
          (Rank2 [[Fin 7]]) [PyInt 1, PyInt 5, PyInt 10]
      = Inr [(Top (PyInt 1), Fin 0), (Top (PyInt 5), Fin 0), (Top (PyInt 10), Fin 0),
             (Mean_ranks, Fin 100), (Exact_matching, Fin 0)]"
    by (simp add: call_def methods_def aggregs_def m r s)
  with r show ?thesis by (intro conjI)
qed

section \<open>Properties of the validation at call entry\<close>

lemma str_list_methods:
  "str_list (map fst methods)
     = ''['euclidean', 'cosine', 'correlation', 'chebyshev', 'minkowski', 'cityblock']''"
  by (simp add: methods_def)

lemma str_list_aggregs: "str_list (map fst aggregs) = ''['mean', 'median', 'robust_mean']''"
  by (simp add: aggregs_def)

lemma map_of_methods_None:
  "map_of methods name = None \<longleftrightarrow>
     name \<notin> {''euclidean'', ''cosine'', ''correlation'', ''chebyshev'', ''minkowski'', ''cityblock''}"
  by (simp add: methods_def)

lemma map_of_aggregs_None:
  "map_of aggregs name = None \<longleftrightarrow> name \<notin> {''mean'', ''median'', ''robust_mean''}"
  by (simp add: aggregs_def)

text \<open>
  Claim C5. A distance method or an aggregation name outside the supported sets raises a
  \<^verbatim>\<open>ValueError\<close> that names the value and lists the valid choices; with valid names, an
  input whose number of dimensions is neither 2 nor 3 raises a \<^verbatim>\<open>ValueError\<close> that names the
  argument and the number of dimensions. The errors do not depend on the contents of the
  tensors nor on \<^verbatim>\<open>k_range\<close>: they come before any aggregation, distance or rank
  computation, in the order method, aggregation, \<^verbatim>\<open>arr1\<close>, \<^verbatim>\<open>arr2\<close>, and a call with such
  an argument never returns a result.
\<close>

theorem call_errors_at_entry:
  "(method_name self \<notin> {''euclidean'', ''cosine'', ''correlation'', ''chebyshev'', ''minkowski'',
                          ''cityblock''} \<longrightarrow>
      call self arr1 arr2 k_range
        = Inl (ValueError (method_name self
            @ '' not in list of defined methods. Please choose from ''
            @ ''['euclidean', 'cosine', 'correlation', 'chebyshev', 'minkowski', 'cityblock']'')))
 \<and> (method_name self \<in> {''euclidean'', ''cosine'', ''correlation'', ''chebyshev'', ''minkowski'',
                          ''cityblock''} \<longrightarrow>
    aggregate self \<notin> {''mean'', ''median'', ''robust_mean''} \<longrightarrow>
      call self arr1 arr2 k_range
        = Inl (ValueError (aggregate self
            @ '' not in list of defined aggregations. Please choose from ''
            @ ''['mean', 'median', 'robust_mean']'')))
 \<and> (method_name self \<in> {''euclidean'', ''cosine'', ''correlation'', ''chebyshev'', ''minkowski'',
                          ''cityblock''} \<longrightarrow>
    aggregate self \<in> {''mean'', ''median'', ''robust_mean''} \<longrightarrow>
    ndim arr1 \<notin> {2, 3} \<longrightarrow>
      call self arr1 arr2 k_range
        = Inl (ValueError (''arr1 should be a 2D or 3D tensor, but got ''
            @ str_nat (ndim arr1) @ ''D tensor'')))
 \<and> (method_name self \<in> {''euclidean'', ''cosine'', ''correlation'', ''chebyshev'', ''minkowski'',
                          ''cityblock''} \<longrightarrow>
    aggregate self \<in> {''mean'', ''median'', ''robust_mean''} \<longrightarrow>
    ndim arr1 \<in> {2, 3} \<longrightarrow> ndim arr2 \<notin> {2, 3} \<longrightarrow>
      call self arr1 arr2 k_range
        = Inl (ValueError (''arr2 should be a 2D or 3D tensor, but got ''
            @ str_nat (ndim arr2) @ ''D tensor'')))"
proof (intro conjI impI)
  assume "method_name self \<notin> {''euclidean'', ''cosine'', ''correlation'', ''chebyshev'',
    ''minkowski'', ''cityblock''}"
  then have "map_of methods (method_name self) = None"
    by (simp add: map_of_methods_None)
  then show "call self arr1 arr2 k_range
        = Inl (ValueError (method_name self
            @ '' not in list of defined methods. Please choose from ''
            @ ''['euclidean', 'cosine', 'correlation', 'chebyshev', 'minkowski', 'cityblock']''))"
    by (simp add: call_def str_list_methods)
next
  assume "method_name self \<in> {''euclidean'', ''cosine'', ''correlation'', ''chebyshev'',
    ''minkowski'', ''cityblock''}"
  then have "map_of methods (method_name self) \<noteq> None"
    by (simp add: map_of_methods_None)
  then obtain d where d: "map_of methods (method_name self) = Some d" by blast
  assume "aggregate self \<notin> {''mean'', ''median'', ''robust_mean''}"
  then have "map_of aggregs (aggregate self) = None"
    by (simp add: map_of_aggregs_None)
  then show "call self arr1 arr2 k_range
        = Inl (ValueError (aggregate self
            @ '' not in list of defined aggregations. Please choose from ''
            @ ''['mean', 'median', 'robust_mean']''))"
    by (simp add: call_def d str_list_aggregs)
next
  assume "method_name self \<in> {''euclidean'', ''cosine'', ''correlation'', ''chebyshev'',
    ''minkowski'', ''cityblock''}"
  then have "map_of methods (method_name self) \<noteq> None"
    by (simp add: map_of_methods_None)
  then obtain d where d: "map_of methods (method_name self) = Some d" by blast
  assume "aggregate self \<in> {''mean'', ''median'', ''robust_mean''}"
  then have "map_of aggregs (aggregate self) \<noteq> None"
    by (simp add: map_of_aggregs_None)
  then obtain a where a: "map_of aggregs (aggregate self) = Some a" by blast
  assume "ndim arr1 \<notin> {2, 3}"
  then show "call self arr1 arr2 k_range
        = Inl (ValueError (''arr1 should be a 2D or 3D tensor, but got ''
            @ str_nat (ndim arr1) @ ''D tensor''))"
    by (simp add: call_def d a)
next
  assume "method_name self \<in> {''euclidean'', ''cosine'', ''correlation'', ''chebyshev'',
    ''minkowski'', ''cityblock''}"
  then have "map_of methods (method_name self) \<noteq> None"
    by (simp add: map_of_methods_None)
  then obtain d where d: "map_of methods (method_name self) = Some d" by blast
  assume "aggregate self \<in> {''mean'', ''median'', ''robust_mean''}"
  then have "map_of aggregs (aggregate self) \<noteq> None"
    by (simp add: map_of_aggregs_None)
  then obtain a where a: "map_of aggregs (aggregate self) = Some a" by blast
  assume "ndim arr1 \<in> {2, 3}" and "ndim arr2 \<notin> {2, 3}"
  then show "call self arr1 arr2 k_range
        = Inl (ValueError (''arr2 should be a 2D or 3D tensor, but got ''
            @ str_nat (ndim arr2) @ ''D tensor''))"
    by (simp add: call_def d a)
qed


theorem call_errors_at_entry_witness:
  "''manhattan'' \<notin> {''euclidean'', ''cosine'', ''correlation'', ''chebyshev'', ''minkowski'',
                      ''cityblock''}
 \<and> call \<lparr>method_name = ''manhattan'', aggregate = ''mean''\<rparr>
        (Rank2 [[Fin 1, Fin 2]]) (Rank2 [[Fin 1, Fin 2, Fin 3]]) [PyInt 1]
     = Inl (ValueError (''manhattan not in list of defined methods. Please choose from ''
          @ ''['euclidean', 'cosine', 'correlation', 'chebyshev', 'minkowski', 'cityblock']''))
 \<and> ''max'' \<notin> {''mean'', ''median'', ''robust_mean''}
 \<and> call \<lparr>method_name = ''cosine'', aggregate = ''max''\<rparr>
        (Rank2 [[Fin 1, Fin 2]]) (Rank2 [[Fin 1, Fin 2, Fin 3]]) [PyInt 1]
     = Inl (ValueError (''max not in list of defined aggregations. Please choose from ''
          @ ''['mean', 'median', 'robust_mean']''))
 \<and> ndim (Rank1 [Fin 1]) \<notin> {2, 3}
 \<and> call \<lparr>method_name = ''cosine'', aggregate = ''mean''\<rparr>
        (Rank1 [Fin 1]) (Rank2 [[Fin 1, Fin 2, Fin 3]]) [PyInt 1]
     = Inl (ValueError ''arr1 should be a 2D or 3D tensor, but got 1D tensor'')
 \<and> ndim (Rank2 [[Fin 1]]) \<in> {2, 3} \<and> ndim (Rank_ge4 0) \<notin> {2, 3}
 \<and> call \<lparr>method_name = ''cosine'', aggregate = ''mean''\<rparr>
        (Rank2 [[Fin 1]]) (Rank_ge4 0) [PyInt 1]
     = Inl (ValueError ''arr2 should be a 2D or 3D tensor, but got 4D tensor'')"
  using call_errors_at_entry [of "\<lparr>method_name = ''manhattan'', aggregate = ''mean''\<rparr>"
          "Rank2 [[Fin 1, Fin 2]]" "Rank2 [[Fin 1, Fin 2, Fin 3]]" "[PyInt 1]"]
        call_errors_at_entry [of "\<lparr>method_name = ''cosine'', aggregate = ''max''\<rparr>"
          "Rank2 [[Fin 1, Fin 2]]" "Rank2 [[Fin 1, Fin 2, Fin 3]]" "[PyInt 1]"]
        call_errors_at_entry [of "\<lparr>method_name = ''cosine'', aggregate = ''mean''\<rparr>"
          "Rank1 [Fin 1]" "Rank2 [[Fin 1, Fin 2, Fin 3]]" "[PyInt 1]"]
        call_errors_at_entry [of "\<lparr>method_name = ''cosine'', aggregate = ''mean''\<rparr>"
          "Rank2 [[Fin 1]]" "Rank_ge4 0" "[PyInt 1]"]
  by (simp add: str_nat.simps)

section \<open>Properties of the pipeline under the Euclidean distance\<close>

lemma fold_fadd_Fin: "fold fadd (map Fin zs) (Fin a) = Fin (rounded_sum zs a)"
  unfolding rounded_sum_def by (induction zs arbitrary: a) simp_all

lemma torch_sum_map_Fin: "torch_sum (map Fin zs) = Fin (rounded_sum zs 0)"
  by (simp add: torch_sum_def fold_fadd_Fin)

lemma rounded_sum_nonneg:
  assumes "\<forall>z\<in>set zs. 0 \<le> z" and "0 \<le> a"
  shows "0 \<le> rounded_sum zs a"
  using assms unfolding rounded_sum_def
proof (induction zs arbitrary: a)
  case Nil
  then show ?case by simp
next
  case (Cons z zs)
  from Cons.prems have "0 \<le> f32 (z + a)" by (intro f32_nonneg) simp
  with Cons show ?case by simp
qed

lemma rounded_sum_zero:
  assumes "\<forall>z\<in>set zs. z = 0"
  shows "rounded_sum zs 0 = 0"
  using assms unfolding rounded_sum_def by (induction zs) simp_all

lemma rounded_sum_pos:
  assumes "\<forall>z\<in>set zs. 0 \<le> z" and "0 \<le> a" and "0 < a \<or> (\<exists>z\<in>set zs. 0 < z)"
  shows "0 < rounded_sum zs a"
  using assms unfolding rounded_sum_def
proof (induction zs arbitrary: a)
  case Nil
  then show ?case by simp
next
  case (Cons z zs)
  from Cons.prems have z: "0 \<le> z" and rest: "\<forall>z\<in>set zs. 0 \<le> z" by simp_all
  show ?case
  proof (cases "0 < z + a")
    case True
    then have "0 < f32 (z + a)" by (rule f32_pos)
    then have "0 < fold (\<lambda>z acc. f32 (z + acc)) zs (f32 (z + a))"
      using rest by (intro Cons.IH) simp_all
    then show ?thesis by simp
  next
    case False
    with z Cons.prems(2) have za: "z = 0" "a = 0" by simp_all
    with Cons.prems(3) have "\<exists>z\<in>set zs. 0 < z" by simp
    then have "0 < fold (\<lambda>z acc. f32 (z + acc)) zs 0"
      using rest by (intro Cons.IH) simp_all
    then show ?thesis using za by simp
  qed
qed

lemma squares_nonneg:
  "\<forall>z\<in>set (map (\<lambda>(u, v). f32 (f32 (u - v) * f32 (u - v))) (zip x y)). 0 \<le> z"
  by (auto intro!: f32_nonneg)

lemma l2_dist_nonneg: "0 \<le> l2_dist x y"
  unfolding l2_dist_def
  by (intro f32_nonneg real_sqrt_ge_zero rounded_sum_nonneg squares_nonneg) simp

lemma l2_dist_self: "l2_dist x x = 0"
proof -
  have "\<forall>z\<in>set (map (\<lambda>(u, v). f32 (f32 (u - v) * f32 (u - v))) (zip x x)). z = 0"
    by (auto simp: set_zip)
  then show ?thesis
    by (simp only: l2_dist_def rounded_sum_zero) simp
qed

lemma l2_dist_pos:
  assumes "length x = length y" and "x \<noteq> y"
  shows "0 < l2_dist x y"
proof -
  from assms obtain i where i: "i < length x" "x ! i \<noteq> y ! i"
    by (auto simp: list_eq_iff_nth_eq)
  let ?sq = "\<lambda>(u, v). f32 (f32 (u - v) * f32 (u - v))"
  have "(x ! i, y ! i) \<in> set (zip x y)"
    using i(1) assms(1) by (auto simp: set_zip)
  then have mem: "?sq (x ! i, y ! i) \<in> set (map ?sq (zip x y))"
    unfolding set_map by (rule imageI)
  have "f32 (x ! i - y ! i) \<noteq> 0" using i(2) by simp
  then have "0 < f32 (x ! i - y ! i) * f32 (x ! i - y ! i)"
    by (simp only: zero_less_mult_iff) linarith
  then have "0 < ?sq (x ! i, y ! i)"
    by (simp add: f32_pos)
  with mem have "\<exists>z\<in>set (map ?sq (zip x y)). 0 < z" by blast
  then have "0 < rounded_sum (map ?sq (zip x y)) 0"
    by (intro rounded_sum_pos squares_nonneg) simp_all
  then have "0 < sqrt (rounded_sum (map ?sq (zip x y)) 0)" by simp
  then show ?thesis
    unfolding l2_dist_def by (rule f32_pos)
qed

lemma euclidean_entry:
  assumes "length x = length y"
  shows "map_sum id norm_p2 (broadcast2 fsub (map Fin x) (map Fin y)) = Inr (Fin (l2_dist x y))"
proof -
  let ?sq = "\<lambda>(u, v). f32 (f32 (u - v) * f32 (u - v))"
  have "map2 fsub (map Fin x) (map Fin y) = map Fin (map (\<lambda>(u, v). f32 (u - v)) (zip x y))"
    by (simp add: zip_map_map fsub_def case_prod_unfold)
  then have "map (\<lambda>z. fmul z z) (map2 fsub (map Fin x) (map Fin y)) = map Fin (map ?sq (zip x y))"
    by (simp add: case_prod_unfold)
  moreover have "0 \<le> rounded_sum (map ?sq (zip x y)) 0"
    by (intro rounded_sum_nonneg squares_nonneg) simp
  ultimately have "norm_p2 (map2 fsub (map Fin x) (map Fin y)) = Fin (l2_dist x y)"
    by (simp only: norm_p2_def torch_sum_map_Fin l2_dist_def fsqrt.simps) simp
  then show ?thesis
    using assms by (simp add: broadcast2_def broadcast_rows_def)
qed

lemma collect_Inr: "collect (map (\<lambda>x. Inr (f x)) xs) = Inr (map f xs)"
  by (induction xs) simp_all

lemma pairwise_rows_Inr:
  assumes "\<And>a b. a \<in> set A \<Longrightarrow> b \<in> set B \<Longrightarrow> d a b = Inr (f a b)"
  shows "pairwise_rows d A B = Inr (map (\<lambda>a. map (f a) B) A)"
proof -
  have "map (\<lambda>a. collect (map (d a) B)) A = map (\<lambda>a. Inr (map (f a) B)) A"
  proof (rule map_cong [OF refl])
    fix a assume a: "a \<in> set A"
    have "map (d a) B = map (\<lambda>b. Inr (f a b)) B"
      by (rule map_cong [OF refl]) (simp add: assms a)
    then show "collect (map (d a) B) = Inr (map (f a) B)"
      by (simp only: collect_Inr)
  qed
  then show ?thesis
    by (simp only: pairwise_rows_def collect_Inr)
qed

lemma euclidean_finite:
  assumes "\<forall>r\<in>set A. length r = f" and "\<forall>r\<in>set B. length r = f"
  shows "euclidean (map (map Fin) A) (map (map Fin) B)
       = Inr (map (\<lambda>x. map (\<lambda>y. Fin (l2_dist x y)) B) A)"
proof -
  let ?un = "map (\<lambda>z. case z of Fin v \<Rightarrow> v | _ \<Rightarrow> 0)"
  have "pairwise_rows (\<lambda>a b. map_sum id norm_p2 (broadcast2 fsub a b))
          (map (map Fin) A) (map (map Fin) B)
      = Inr (map (\<lambda>a. map (\<lambda>b. Fin (l2_dist (?un a) (?un b))) (map (map Fin) B))
               (map (map Fin) A))"
  proof (rule pairwise_rows_Inr)
    fix a b assume "a \<in> set (map (map Fin) A)" and "b \<in> set (map (map Fin) B)"
    then obtain x y where x: "x \<in> set A" "a = map Fin x" and y: "y \<in> set B" "b = map Fin y"
      by auto
    have unfin: "?un (map Fin w) = w" for w
      by (induction w) simp_all
    from x y assms have "length x = length y" by simp
    then show "map_sum id norm_p2 (broadcast2 fsub a b) = Inr (Fin (l2_dist (?un a) (?un b)))"
      unfolding x y unfin by (rule euclidean_entry)
  qed
  also have "map (\<lambda>a. map (\<lambda>b. Fin (l2_dist (?un a) (?un b))) (map (map Fin) B))
               (map (map Fin) A)
      = map (\<lambda>x. map (\<lambda>y. Fin (l2_dist x y)) B) A"
    by (simp add: o_def)
  finally show ?thesis
    unfolding euclidean_def .
qed

lemma call_rank2_euclidean:
  assumes "method_name self = ''euclidean''"
    and "aggregate self \<in> {''mean'', ''median'', ''robust_mean''}"
  shows "call self (Rank2 a) (Rank2 b) k_range =
           (case euclidean a b of
              Inl e \<Rightarrow> Inl e
            | Inr m \<Rightarrow> (case compute_diag_ranks m of
                          Inl e \<Rightarrow> Inl e
                        | Inr ranks \<Rightarrow> Inr (scores (length m) ranks k_range)))"
proof -
  from assms(2) have "map_of aggregs (aggregate self) \<noteq> None"
    by (simp add: map_of_aggregs_None)
  then obtain g where g: "map_of aggregs (aggregate self) = Some g" by blast
  have "map_of methods (method_name self) = Some euclidean"
    by (simp add: assms(1) methods_def)
  then show ?thesis
    by (simp add: call_def g)
qed

text \<open>
  A collection of pairwise different rows compared with itself: every diagonal entry of
  the distance matrix is 0 and every other entry is positive, and the rank extractor gives
  every item the last rank.
\<close>

lemma identity_matrix_shape:
  "is_matrix (length A) (length A) (map (\<lambda>x. map (\<lambda>y. Fin (l2_dist x y)) A) A)"
  by (simp add: is_matrix_def list_all_iff)

lemma identity_ranks:
  assumes "\<forall>r\<in>set A. length r = f" and "distinct A"
  shows "compute_diag_ranks (map (\<lambda>x. map (\<lambda>y. Fin (l2_dist x y)) A) A)
       = Inr (replicate (length A) (length A))"
proof -
  let ?n = "length A"
  let ?D = "map (\<lambda>x. map (\<lambda>y. Fin (l2_dist x y)) A) A"
  have eq: "compute_diag_ranks ?D = Inr (map (rank_of ?D) [0..<?n])"
    using identity_matrix_shape [of A] by (rule compute_diag_ranks_eq) simp
  have "rank_of ?D i = ?n" if i: "i < ?n" for i
  proof -
    have "larger (?D ! j ! i) (?D ! i ! i)" if j: "j < ?n" "j \<noteq> i" for j
    proof -
      from i j assms(2) have "A ! j \<noteq> A ! i"
        by (simp add: nth_eq_iff_index_eq)
      moreover from i j assms(1) have "length (A ! j) = length (A ! i)"
        by simp
      ultimately have "0 < l2_dist (A ! j) (A ! i)"
        by (intro l2_dist_pos)
      then show ?thesis
        using i j by (simp add: l2_dist_self)
    qed
    then have "rank_of ?D i = length ?D"
      using i by (intro rank_of_smallest) simp_all
    then show ?thesis by simp
  qed
  then have "map (rank_of ?D) [0..<?n] = map (\<lambda>i. ?n) [0..<?n]"
    by simp
  also have "\<dots> = replicate ?n ?n"
    by (simp add: map_replicate_const)
  finally show ?thesis
    using eq by simp
qed

text \<open>The rows of the example are pairwise different: their first entries are.\<close>

lemma literal32_mono: "p \<le> q \<Longrightarrow> literal32 p \<le> literal32 q"
  unfolding literal32_def by (intro f32_mono f64_mono)

lemma literal32_quarter: "literal32 (1 / 4) = 1 / 4"
  using f32_frac [of 1 2] by (simp add: literal32_def)

lemma literal32_half: "literal32 (1 / 2) = 1 / 2"
  by (simp add: literal32_def)

lemma literal32_eighth: "literal32 (1 / 8) = 1 / 8"
  using f32_frac [of 1 3] by (simp add: literal32_def)

lemma example_entries:
  "1 / 2 \<le> literal32 (7 / 10)" "1 / 4 \<le> literal32 (3 / 10)" "literal32 (3 / 10) < 1 / 2"
  "literal32 (1 / 10) \<le> 1 / 8"
proof -
  show "1 / 2 \<le> literal32 (7 / 10)"
    using literal32_mono [of "1 / 2" "7 / 10"] by (simp add: literal32_half)
  show "1 / 4 \<le> literal32 (3 / 10)"
    using literal32_mono [of "1 / 4" "3 / 10"] by (simp add: literal32_quarter)
  have "literal32 (3 / 10) \<le> literal32 (of_int 3 / 2 ^ 3)"
    by (rule literal32_mono) simp
  also have "literal32 (of_int 3 / 2 ^ 3) = of_int 3 / 2 ^ 3"
  proof -
    have "f64 (of_int 3 / 2 ^ 3) = of_int 3 / 2 ^ 3" by (rule f64_frac) simp
    moreover have "f32 (of_int 3 / 2 ^ 3) = of_int 3 / 2 ^ 3" by (rule f32_frac) simp
    ultimately show ?thesis by (simp only: literal32_def)
  qed
  finally show "literal32 (3 / 10) < 1 / 2" by simp
  show "literal32 (1 / 10) \<le> 1 / 8"
    using literal32_mono [of "1 / 10" "1 / 8"] by (simp add: literal32_eighth)
qed

lemma distinct_example_rows: "distinct example_rows"
  using example_entries by (simp add: example_rows_def)

lemma example_matrix:
  "euclidean example_arr example_arr
     = Inr (map (\<lambda>x. map (\<lambda>y. Fin (l2_dist x y)) example_rows) example_rows)"
  unfolding example_arr_def
  by (rule euclidean_finite [of _ 3]) (simp_all add: example_rows_def)

lemma example_ranks:
  "compute_diag_ranks (map (\<lambda>x. map (\<lambda>y. Fin (l2_dist x y)) example_rows) example_rows)
     = Inr [3, 3, 3]"
proof -
  have "compute_diag_ranks (map (\<lambda>x. map (\<lambda>y. Fin (l2_dist x y)) example_rows) example_rows)
      = Inr (replicate (length example_rows) (length example_rows))"
    by (rule identity_ranks [of _ 3]) (simp_all add: distinct_example_rows, simp add: example_rows_def)
  also have "replicate (length example_rows) (length example_rows) = [3, 3, 3]"
    by (simp add: example_rows_def numeral_3_eq_3)
  finally show ?thesis .
qed

lemma example_scores:
  "scores 3 [3, 3, 3] [PyInt 1, PyInt 5, PyInt 10]
     = [(Top (PyInt 1), Fin 0), (Top (PyInt 5), Fin 0), (Top (PyInt 10), Fin 0),
        (Mean_ranks, Fin 100), (Exact_matching, Fin 0)]"
proof -
  have t: "topk_step 3 [3, 3, 3] k d = AList.update (Top k) (Fin 0) d" if "py_val k \<le> 10" for k d
    using that by (intro topk_step_small) simp_all
  have mr: "percent (torch_mean (map int_tensor [3, 3, 3])) 3 = Fin 100"
    by (simp add: torch_mean_def torch_sum_def int_tensor_def percent_def)
  have ex: "percent (int_tensor (count_eq [3, 3, 3] 0)) 3 = Fin 0"
    by (simp add: count_eq_def percent_def int_tensor_def)
  show ?thesis
    unfolding scores_def Let_def mr ex by (simp add: t)
qed

text \<open>
  Claim C3 says that a collection compared with itself under the Euclidean distance gets
  \<^verbatim>\<open>exact_matching\<close> 100 and \<^verbatim>\<open>mean_ranks\<close> \<open>(1 / N) * 100\<close>, on the example of the
  docstring \<^verbatim>\<open>mean_ranks\<close> about 33.3. On that example every row is at distance 0 from
  itself, the smallest distance of its column, and the code gives every item rank 3 of 3:
  the result holds \<^verbatim>\<open>mean_ranks\<close> 100 and \<^verbatim>\<open>exact_matching\<close> 0, and 0 for the three
  percentages.
\<close>

theorem identity_failing_input:
  "(\<exists>m. euclidean example_arr example_arr = Inr m
       \<and> m ! 0 ! 0 = Fin 0 \<and> m ! 1 ! 1 = Fin 0 \<and> m ! 2 ! 2 = Fin 0
       \<and> compute_diag_ranks m = Inr [3, 3, 3])
 \<and> call \<lparr>method_name = ''euclidean'', aggregate = ''mean''\<rparr>
        (Rank2 example_arr) (Rank2 example_arr) [PyInt 1, PyInt 5, PyInt 10]
     = Inr [(Top (PyInt 1), Fin 0), (Top (PyInt 5), Fin 0), (Top (PyInt 10), Fin 0),
            (Mean_ranks, Fin 100), (Exact_matching, Fin 0)]"
proof -
  let ?m = "map (\<lambda>x. map (\<lambda>y. Fin (l2_dist x y)) example_rows) example_rows"
  have d: "?m ! 0 ! 0 = Fin 0" "?m ! 1 ! 1 = Fin 0" "?m ! 2 ! 2 = Fin 0"
    by (simp_all add: example_rows_def l2_dist_self)
  have len: "length ?m = 3"
    by (simp add: example_rows_def)
  have "call \<lparr>method_name = ''euclidean'', aggregate = ''mean''\<rparr>
        (Rank2 example_arr) (Rank2 example_arr) [PyInt 1, PyInt 5, PyInt 10]
      = Inr (scores 3 [3, 3, 3] [PyInt 1, PyInt 5, PyInt 10])"
    by (simp only: call_rank2_euclidean [of "\<lparr>method_name = ''euclidean'', aggregate = ''mean''\<rparr>", simplified]
        example_matrix example_ranks len sum.case)
  with example_matrix example_ranks d show ?thesis
    by (simp only: example_scores) blast
qed

section \<open>Properties of the cosine and the correlation distance\<close>

lemma eps32_pos: "0 < eps32"
  unfolding eps32_def by (intro f32_pos f64_pos) simp

lemma cosine_zero_rows: "cosine [[Fin 0, Fin 0]] [[Fin 0, Fin 0]] = Inr [[Fin 1]]"
proof -
  have n: "norm_p2 [Fin 0, Fin 0] = Fin 0"
    by (simp add: norm_p2_def torch_sum_def)
  have m: "fmax (Fin 0) (Fin eps32) = Fin eps32"
    using eps32_pos by (simp add: fmax_def)
  have "eps32 * eps32 \<noteq> 0" using eps32_pos by simp
  then have "cosine_similarity [Fin 0, Fin 0] [Fin 0, Fin 0] = Fin 0"
    by (simp add: cosine_similarity_def n m torch_sum_def)
  then show ?thesis
    by (simp add: cosine_def pairwise_rows_def broadcast_rows_def fsub_def)
qed

lemma centered_rows:
  "centered [[Fin 1, Fin 1, Fin 1, Fin 1], [Fin 0, Fin 0, Fin 2, Fin 2]]
     = [[Fin 0, Fin 0, Fin 0, Fin 0], [Fin (- 1), Fin (- 1), Fin 1, Fin 1]]"
  by (simp add: centered_def torch_mean_def torch_sum_def fsub_def f32_minus)

lemma norm_centered_rows:
  "norm_p2 [Fin 0, Fin 0, Fin 0, Fin 0] = Fin 0"
  "norm_p2 [Fin (- 1), Fin (- 1), Fin 1, Fin 1] = Fin 2"
  by (simp_all add: norm_p2_def torch_sum_def)

text \<open>
  Claim C10 says that a vector of norm zero (for the correlation distance a constant
  vector, whose norm is zero after centering) gets a defined distance, not \<open>NaN\<close>. The
  cosine distance does so: \<^verbatim>\<open>F.cosine_similarity\<close> keeps the norms away from zero with
  \<^verbatim>\<open>eps\<close>, and the zero vector is at distance 1 from itself. \<^verbatim>\<open>_correlation\<close> divides by
  the norms as they are: with a constant first row, the column of that row in the distance
  matrix is \<open>NaN\<close> (\<open>0 / 0\<close>), also in the row of the second item, which is not constant.
\<close>

theorem correlation_failing_input:
  "correlation [[Fin 1, Fin 1, Fin 1, Fin 1], [Fin 0, Fin 0, Fin 2, Fin 2]]
               [[Fin 1, Fin 1, Fin 1, Fin 1], [Fin 0, Fin 0, Fin 2, Fin 2]]
     = Inr [[NaN, Fin 1], [NaN, Fin 0]]
 \<and> cosine [[Fin 0, Fin 0]] [[Fin 0, Fin 0]] = Inr [[Fin 1]]"
proof -
  have "correlation [[Fin 1, Fin 1, Fin 1, Fin 1], [Fin 0, Fin 0, Fin 2, Fin 2]]
               [[Fin 1, Fin 1, Fin 1, Fin 1], [Fin 0, Fin 0, Fin 2, Fin 2]]
     = Inr [[NaN, Fin 1], [NaN, Fin 0]]"
    unfolding correlation_def Let_def centered_rows
    by (simp add: pairwise_rows_def broadcast2_def broadcast_rows_def torch_sum_def div_rows_def
        norm_centered_rows inf_of_sign_def fsub_def f32_minus)
  with cosine_zero_rows show ?thesis by (intro conjI)
qed

end
